theory Spec2Isabelle
  imports Complex_Main "HOL-Library.Sublist"
begin

section \<open>Providers and markets\<close>

text \<open>
  \<^verbatim>\<open>ApiSource\<close> (types.ts) and \<^verbatim>\<open>Market\<close> (market-router.ts) are string-literal unions;
  each becomes a datatype. JavaScript strings are modelled as \<^typ>\<open>string\<close> over ASCII
  characters; code points beyond ASCII are outside the model. Calls to the logger and to
  \<^verbatim>\<open>console.error\<close> change nothing that is modelled and are left out throughout.
\<close>

datatype ApiSource = Finnhub | Alphavantage | Twelvedata | Tiingo | Sina | Eastmoney

datatype Market = US | SH | SZ | BJ | HK | UNKNOWN

section \<open>Symbol classifier (market-router.ts)\<close>

text \<open>\<^verbatim>\<open>String.prototype.toUpperCase\<close> on ASCII: the 26 lower-case letters are mapped, every
  other character is kept.\<close>

definition upperChar :: "char \<Rightarrow> char" where
  "upperChar c =
     (case map_of (zip ''abcdefghijklmnopqrstuvwxyz'' ''ABCDEFGHIJKLMNOPQRSTUVWXYZ'') c of
        Some u \<Rightarrow> u
      | None \<Rightarrow> c)"

definition toUpperCase :: "string \<Rightarrow> string" where
  "toUpperCase s = map upperChar s"

text \<open>\<^verbatim>\<open>s.endsWith(suf)\<close>.\<close>

definition endsWith :: "string \<Rightarrow> string \<Rightarrow> bool" where
  "endsWith s suf \<longleftrightarrow> length suf \<le> length s \<and> drop (length s - length suf) s = suf"

text \<open>The character classes \<^verbatim>\<open>\d\<close> and \<^verbatim>\<open>[A-Z]\<close>.\<close>

definition isDigit :: "char \<Rightarrow> bool" where
  "isDigit c \<longleftrightarrow> c \<in> set ''0123456789''"

definition isUpperLetter :: "char \<Rightarrow> bool" where
  "isUpperLetter c \<longleftrightarrow> c \<in> set ''ABCDEFGHIJKLMNOPQRSTUVWXYZ''"

text \<open>\<^verbatim>\<open>/^XX\d{6}$/i.test(symbol)\<close> for a two-letter upper-case prefix \<open>XX\<close>: the whole symbol
  is the prefix in either case followed by exactly six digits.\<close>

definition matchesPrefixSixDigits :: "string \<Rightarrow> string \<Rightarrow> bool" where
  "matchesPrefixSixDigits pre symbol \<longleftrightarrow>
     length symbol = length pre + 6 \<and>
     toUpperCase (take (length pre) symbol) = pre \<and>
     list_all isDigit (drop (length pre) symbol)"

text \<open>\<^verbatim>\<open>/^[A-Z]{1,5}$/.test(symbol)\<close>.\<close>

definition matchesOneToFiveLetters :: "string \<Rightarrow> bool" where
  "matchesOneToFiveLetters symbol \<longleftrightarrow>
     1 \<le> length symbol \<and> length symbol \<le> 5 \<and> list_all isUpperLetter symbol"

text \<open>\<^verbatim>\<open>getMarketFromSymbol\<close>, branch by branch in the order of the source. The local
  \<^verbatim>\<open>prefix\<close> is written \<open>pfx\<close>, and \<^verbatim>\<open>code\<close> is \<^verbatim>\<open>symbol.replace(/\D/g, '')\<close>, the digits of the symbol in order.\<close>

definition getMarketFromSymbol :: "string \<Rightarrow> Market" where
  "getMarketFromSymbol symbol =
     (let upper = toUpperCase symbol in
      if endsWith upper ''.SH'' \<or> endsWith upper ''.SS'' then SH
      else if endsWith upper ''.SZ'' then SZ
      else if endsWith upper ''.BJ'' then BJ
      else if endsWith upper ''.HK'' then HK
      else if endsWith upper ''.US'' \<or> endsWith upper ''.N'' \<or> endsWith upper ''.O'' then US
      else if matchesPrefixSixDigits ''SH'' symbol then SH
      else if matchesPrefixSixDigits ''SZ'' symbol then SZ
      else if matchesPrefixSixDigits ''BJ'' symbol then BJ
      else
        (let code = filter isDigit symbol;
             pfx = take 1 code in
         if length code = 6 \<and> (pfx = ''6'' \<or> pfx = ''5'') then SH
         else if length code = 6 \<and> (pfx = ''0'' \<or> pfx = ''3'' \<or> pfx = ''2'') then SZ
         else if length code = 6 \<and> (pfx = ''4'' \<or> pfx = ''8'') then BJ
         else if length code = 5 \<and> list_all isDigit code then HK
         else if matchesOneToFiveLetters symbol then US
         else UNKNOWN))"

text \<open>
  The classifier as the specification words it: the four suffix rules first (case-insensitive),
  then a bare symbol of one to five upper-case letters, a six-digit code by its first digit,
  a five-digit code, and UNKNOWN for everything else.
\<close>

definition spec_classify :: "string \<Rightarrow> Market" where
  "spec_classify symbol =
     (if endsWith (toUpperCase symbol) ''.SH'' \<or> endsWith (toUpperCase symbol) ''.SS'' then SH
      else if endsWith (toUpperCase symbol) ''.SZ'' then SZ
      else if endsWith (toUpperCase symbol) ''.BJ'' then BJ
      else if endsWith (toUpperCase symbol) ''.HK'' then HK
      else if 1 \<le> length symbol \<and> length symbol \<le> 5 \<and> list_all isUpperLetter symbol then US
      else if length symbol = 6 \<and> list_all isDigit symbol then
        (if hd symbol \<in> set ''65'' then SH
         else if hd symbol \<in> set ''023'' then SZ
         else if hd symbol \<in> set ''48'' then BJ
         else UNKNOWN)
      else if length symbol = 5 \<and> list_all isDigit symbol then HK
      else UNKNOWN)"

section \<open>Source router (source-router.ts, market-aware version)\<close>

text \<open>The static tables \<^verbatim>\<open>OPTIMAL_SOURCE_MAP\<close> and \<^verbatim>\<open>MARKET_SOURCE_FILTER\<close>. A tool name that
  is not a key of the table yields \<^verbatim>\<open>undefined\<close>, here \<open>None\<close>; names that an object literal
  inherits, such as \<^verbatim>\<open>constructor\<close>, are outside the model.\<close>

definition OPTIMAL_SOURCE_MAP :: "string \<Rightarrow> ApiSource list option" where
  "OPTIMAL_SOURCE_MAP = map_of
     [(''get_stock_quote'', [Finnhub, Twelvedata, Tiingo, Alphavantage, Sina, Eastmoney]),
      (''get_stock_candles'', [Twelvedata, Finnhub, Tiingo, Sina, Eastmoney]),
      (''get_stock_price_history'', [Twelvedata, Finnhub, Tiingo, Alphavantage, Sina, Eastmoney]),
      (''get_technical_indicator'', [Twelvedata, Alphavantage]),
      (''get_daily_prices'', [Tiingo, Alphavantage, Twelvedata, Sina, Eastmoney]),
      (''get_news'', [Tiingo, Finnhub]),
      (''get_quote'', [Twelvedata, Tiingo, Alphavantage, Sina, Eastmoney]),
      (''get_company_overview'', [Tiingo, Alphavantage]),
      (''get_company_info'', [Finnhub, Alphavantage, Tiingo]),
      (''get_financials'', [Finnhub, Alphavantage]),
      (''get_company_basic_financials'', [Finnhub]),
      (''get_company_metrics'', [Finnhub]),
      (''get_income_statement'', [Alphavantage]),
      (''get_balance_sheet'', [Alphavantage]),
      (''get_cash_flow'', [Alphavantage])]"

fun MARKET_SOURCE_FILTER :: "Market \<Rightarrow> ApiSource list" where
  "MARKET_SOURCE_FILTER US = [Finnhub, Twelvedata, Tiingo, Alphavantage]"
| "MARKET_SOURCE_FILTER SH = [Sina, Eastmoney]"
| "MARKET_SOURCE_FILTER SZ = [Sina, Eastmoney]"
| "MARKET_SOURCE_FILTER BJ = [Sina, Eastmoney]"
| "MARKET_SOURCE_FILTER HK = [Finnhub, Twelvedata, Sina]"
| "MARKET_SOURCE_FILTER UNKNOWN = [Finnhub, Alphavantage, Sina, Eastmoney]"

text \<open>
  \<^verbatim>\<open>SourceRouter.getSourcesForTool(toolName, symbol?)\<close>. The router's only field,
  \<^verbatim>\<open>customPriorities\<close>, is a map from tool names to lists and is the first argument. The
  optional \<^verbatim>\<open>symbol\<close> is tested for truthiness: \<^verbatim>\<open>undefined\<close> and the empty string both
  skip the market filter.
\<close>

definition priorityEntry :: "(string \<Rightarrow> ApiSource list option) \<Rightarrow> string \<Rightarrow> ApiSource list" where
  "priorityEntry customPriorities toolName =
     (case customPriorities toolName of
        Some custom \<Rightarrow> custom
      | None \<Rightarrow> (case OPTIMAL_SOURCE_MAP toolName of Some d \<Rightarrow> d | None \<Rightarrow> [Finnhub]))"

definition getSourcesForTool ::
  "(string \<Rightarrow> ApiSource list option) \<Rightarrow> string \<Rightarrow> string option \<Rightarrow> ApiSource list" where
  "getSourcesForTool customPriorities toolName symbol =
     (let sources = priorityEntry customPriorities toolName in
      case symbol of
        None \<Rightarrow> sources
      | Some sy \<Rightarrow>
          if sy = [] then sources
          else
            (let market = getMarketFromSymbol sy;
                 marketSources = MARKET_SOURCE_FILTER market;
                 filtered = filter (\<lambda>s. s \<in> set marketSources) sources
             in if length filtered = 0 then marketSources else filtered))"


section \<open>Circuit breaker (circuit-breaker.ts)\<close>

text \<open>
  The fields of \<^verbatim>\<open>ResilienceConfig\<close> that the modelled code reads. They come from
  \<^verbatim>\<open>parseInt\<close> of environment variables, so the numbers are integers of either sign
  (\<^verbatim>\<open>NaN\<close> is not modelled). Times are milliseconds as returned by \<^verbatim>\<open>Date.now()\<close>.
\<close>

record ResilienceConfig =
  circuitBreakerEnabled :: bool
  circuitBreakerFailureThreshold :: int
  circuitBreakerTimeoutMs :: int
  keyRotationResetWindowMs :: int

datatype CircuitState = Closed | Open | HalfOpen

record CircuitBreaker =
  circuitState :: CircuitState
  failureCount :: nat
  lastFailureTime :: int
  lastStateChange :: int

text \<open>A value thrown in JavaScript is either an \<^verbatim>\<open>Error\<close> object, of which the code reads
  the message, or some other value (\<^verbatim>\<open>error instanceof Error\<close> is false).\<close>

datatype thrown = JsError string | NonError

text \<open>
  The outcome of a call through the breaker: the wrapped function's value, the value it threw,
  or the breaker's own error with \<^verbatim>\<open>code = 'CIRCUIT_OPEN'\<close>, of which the number of seconds
  printed in its message is kept.
\<close>

datatype 'a BreakerOutcome = Resolved 'a | Rejected thrown | RejectedCircuitOpen int

text \<open>The state of a breaker after its constructor.\<close>

definition newCircuitBreaker :: CircuitBreaker where
  "newCircuitBreaker =
     \<lparr>circuitState = Closed, failureCount = 0, lastFailureTime = 0, lastStateChange = 0\<rparr>"

text \<open>\<^verbatim>\<open>onSuccess\<close> and \<^verbatim>\<open>onFailure\<close>; \<open>t\<close> is the value of \<^verbatim>\<open>Date.now()\<close> when they run.\<close>

definition onSuccess :: "CircuitBreaker \<Rightarrow> int \<Rightarrow> CircuitBreaker" where
  "onSuccess b t =
     (let b1 = b\<lparr>failureCount := 0\<rparr> in
      if circuitState b1 \<noteq> Closed
      then b1\<lparr>circuitState := Closed, lastStateChange := t\<rparr>
      else b1)"

definition onFailure :: "ResilienceConfig \<Rightarrow> CircuitBreaker \<Rightarrow> int \<Rightarrow> CircuitBreaker" where
  "onFailure cfg b t =
     (let b1 = b\<lparr>failureCount := failureCount b + 1, lastFailureTime := t\<rparr>;
          threshold = circuitBreakerFailureThreshold cfg in
      if threshold \<le> int (failureCount b1) \<and> circuitState b1 \<noteq> Open
      then b1\<lparr>circuitState := Open, lastStateChange := t\<rparr>
      else b1)"

text \<open>\<^verbatim>\<open>Math.ceil(ms / 1000)\<close> on an integer number of milliseconds.\<close>

definition ceilSeconds :: "int \<Rightarrow> int" where
  "ceilSeconds ms = - ((- ms) div 1000)"

text \<open>
  \<^verbatim>\<open>execute(fn)\<close>. \<open>t\<close> is \<^verbatim>\<open>Date.now()\<close> on entry; the wrapped call \<open>fn\<close> is given by what it
  yields (\<open>Inl\<close> a thrown value, \<open>Inr\<close> a result) and the milliseconds it takes, after which
  \<^verbatim>\<open>onSuccess\<close> or \<^verbatim>\<open>onFailure\<close> read the clock again.
\<close>

definition execute ::
  "ResilienceConfig \<Rightarrow> CircuitBreaker \<Rightarrow> int \<Rightarrow> (thrown + 'a) \<times> nat \<Rightarrow>
     'a BreakerOutcome \<times> CircuitBreaker" where
  "execute cfg b t fn =
     (if \<not> circuitBreakerEnabled cfg then
        (case fst fn of Inr v \<Rightarrow> (Resolved v, b) | Inl e \<Rightarrow> (Rejected e, b))
      else if circuitState b = Open then
        (let timeUntilHalfOpen = circuitBreakerTimeoutMs cfg - (t - lastFailureTime b)
         in (RejectedCircuitOpen (ceilSeconds timeUntilHalfOpen), b))
      else
        (case fst fn of
           Inr v \<Rightarrow> (Resolved v, onSuccess b (t + int (snd fn)))
         | Inl e \<Rightarrow> (Rejected e, onFailure cfg b (t + int (snd fn)))))"

text \<open>\<^verbatim>\<open>testRecovery(fn)\<close>, the second entry point of the class.\<close>

definition testRecovery ::
  "ResilienceConfig \<Rightarrow> CircuitBreaker \<Rightarrow> int \<Rightarrow> (thrown + 'a) \<times> nat \<Rightarrow>
     'a BreakerOutcome \<times> CircuitBreaker" where
  "testRecovery cfg b t fn =
     (if circuitState b \<noteq> Open then
        (case fst fn of Inr v \<Rightarrow> (Resolved v, b) | Inl e \<Rightarrow> (Rejected e, b))
      else
        (let timeSinceOpen = t - lastFailureTime b in
         if circuitBreakerTimeoutMs cfg \<le> timeSinceOpen then
           (let b1 = b\<lparr>circuitState := HalfOpen, lastStateChange := t\<rparr> in
            case fst fn of
              Inr v \<Rightarrow> (Resolved v, onSuccess b1 (t + int (snd fn)))
            | Inl e \<Rightarrow> (Rejected e, onFailure cfg b1 (t + int (snd fn))))
         else
           (RejectedCircuitOpen (ceilSeconds (circuitBreakerTimeoutMs cfg - timeSinceOpen)), b)))"

text \<open>A run of calls through \<^verbatim>\<open>execute\<close>, each with its own entry time and wrapped call;
  the breaker after the last one.\<close>

fun executeCalls ::
  "ResilienceConfig \<Rightarrow> CircuitBreaker \<Rightarrow> (int \<times> (thrown + 'a) \<times> nat) list \<Rightarrow> CircuitBreaker" where
  "executeCalls cfg b [] = b"
| "executeCalls cfg b ((t, fn) # calls) = executeCalls cfg (snd (execute cfg b t fn)) calls"

text \<open>A call whose wrapped function throws.\<close>

definition failedCall :: "int \<times> (thrown + 'a) \<times> nat \<Rightarrow> bool" where
  "failedCall c \<longleftrightarrow> (case fst (snd c) of Inl e \<Rightarrow> True | Inr v \<Rightarrow> False)"

section \<open>Key manager (api-key-manager.ts)\<close>

record ApiKeyInfo =
  key :: string
  index :: nat
  usageCount :: nat
  lastUsed :: int
  inCooldown :: bool
  cooldownUntil :: "int option"
  lastRateLimitError :: "int option"

text \<open>
  A \<^verbatim>\<open>KeyManager\<close> holds two maps keyed by API name, \<^verbatim>\<open>keys\<close> and \<^verbatim>\<open>currentIndexes\<close>, in which
  only the entry of its own \<^verbatim>\<open>apiName\<close> is ever written. The record keeps that entry:
  \<open>keys = None\<close> when no key list was stored, and \<open>currentIndex\<close> with the default 0 that
  every read applies (\<^verbatim>\<open>currentIndexes.get(name) || 0\<close>). The read-only configuration is an
  argument of the operations that use it.
\<close>

record KeyManager =
  apiName :: ApiSource
  keys :: "ApiKeyInfo list option"
  currentIndex :: nat

text \<open>\<^verbatim>\<open>this.keys.get(name)\<close> and \<^verbatim>\<open>this.currentIndexes.get(name) || 0\<close> for any name.\<close>

definition keysGet :: "KeyManager \<Rightarrow> ApiSource \<Rightarrow> ApiKeyInfo list option" where
  "keysGet km name = (if name = apiName km then keys km else None)"

definition currentIndexGet :: "KeyManager \<Rightarrow> ApiSource \<Rightarrow> nat" where
  "currentIndexGet km name = (if name = apiName km then currentIndex km else 0)"

text \<open>The constructor, from the list of key strings that \<^verbatim>\<open>initializeKeys\<close> obtains by
  splitting the environment variable; \<open>None\<close> stands for a variable that is unset or blank.\<close>

definition freshKey :: "nat \<Rightarrow> string \<Rightarrow> ApiKeyInfo" where
  "freshKey i k =
     \<lparr>key = k, index = i, usageCount = 0, lastUsed = 0, inCooldown = False,
      cooldownUntil = None, lastRateLimitError = None\<rparr>"

definition newKeyManager :: "ApiSource \<Rightarrow> string list option \<Rightarrow> KeyManager" where
  "newKeyManager name env =
     \<lparr>apiName = name,
      keys = map_option (\<lambda>ks. map (\<lambda>(i, k). freshKey i k) (zip [0..<length ks] ks)) env,
      currentIndex = 0\<rparr>"

text \<open>
  The scan of \<^verbatim>\<open>getNextKey\<close>: at most \<open>n\<close> more iterations from position \<open>cur\<close>. Reading
  \<^verbatim>\<open>keys[currentIndex]\<close> out of range gives \<^verbatim>\<open>undefined\<close>, and \<^verbatim>\<open>key.inCooldown\<close> then throws
  a \<^verbatim>\<open>TypeError\<close>.
\<close>

definition undefinedTypeError :: thrown where
  "undefinedTypeError = JsError ''Cannot read properties of undefined''"

fun getNextKeyScan :: "ApiKeyInfo list \<Rightarrow> nat \<Rightarrow> nat \<Rightarrow> thrown + nat option" where
  "getNextKeyScan ks cur 0 = Inr None"
| "getNextKeyScan ks cur (Suc n) =
     (if length ks \<le> cur then Inl undefinedTypeError
      else if \<not> inCooldown (ks ! cur) then Inr (Some cur)
      else getNextKeyScan ks ((cur + 1) mod length ks) n)"

definition getNextKey ::
  "KeyManager \<Rightarrow> ApiSource \<Rightarrow> (thrown + ApiKeyInfo option) \<times> KeyManager" where
  "getNextKey km name =
     (case keysGet km name of
        None \<Rightarrow> (Inr None, km)
      | Some ks \<Rightarrow>
          if length ks = 0 then (Inr None, km)
          else
            (case getNextKeyScan ks (currentIndexGet km name) (length ks * 2) of
               Inl e \<Rightarrow> (Inl e, km)
             | Inr None \<Rightarrow> (Inr None, km)
             | Inr (Some i) \<Rightarrow> (Inr (Some (ks ! i)), km\<lparr>currentIndex := i\<rparr>)))"

text \<open>The mutators; \<open>t\<close> is \<^verbatim>\<open>Date.now()\<close>.\<close>

definition markRateLimit :: "ResilienceConfig \<Rightarrow> KeyManager \<Rightarrow> int \<Rightarrow> nat \<Rightarrow> KeyManager" where
  "markRateLimit cfg km t keyIndex =
     (case keys km of
        None \<Rightarrow> km
      | Some ks \<Rightarrow>
          if length ks \<le> keyIndex then km
          else km\<lparr>keys := Some (ks[keyIndex := (ks ! keyIndex)
                 \<lparr>inCooldown := True,
                  cooldownUntil := Some (t + keyRotationResetWindowMs cfg),
                  lastRateLimitError := Some t\<rparr>])\<rparr>)"

definition recordUsage :: "KeyManager \<Rightarrow> int \<Rightarrow> nat \<Rightarrow> KeyManager" where
  "recordUsage km t keyIndex =
     (case keys km of
        None \<Rightarrow> km
      | Some ks \<Rightarrow>
          if length ks \<le> keyIndex then km
          else km\<lparr>keys := Some (ks[keyIndex := (ks ! keyIndex)
                      \<lparr>usageCount := usageCount (ks ! keyIndex) + 1, lastUsed := t\<rparr>]),
                  currentIndex := keyIndex\<rparr>)"

definition resetCooldown :: "KeyManager \<Rightarrow> nat \<Rightarrow> KeyManager" where
  "resetCooldown km keyIndex =
     (case keys km of
        None \<Rightarrow> km
      | Some ks \<Rightarrow>
          if length ks \<le> keyIndex then km
          else km\<lparr>keys := Some (ks[keyIndex := (ks ! keyIndex)
                      \<lparr>inCooldown := False, cooldownUntil := None\<rparr>])\<rparr>)"

text \<open>The test of \<^verbatim>\<open>checkAndResetCooldowns\<close> on one key:
  \<^verbatim>\<open>key.inCooldown && key.cooldownUntil && now >= key.cooldownUntil\<close>, where a deadline that is
  \<^verbatim>\<open>undefined\<close> or 0 is falsy.\<close>

definition cooldownExpired :: "ApiKeyInfo \<Rightarrow> int \<Rightarrow> bool" where
  "cooldownExpired k t \<longleftrightarrow>
     inCooldown k \<and> (case cooldownUntil k of None \<Rightarrow> False | Some d \<Rightarrow> d \<noteq> 0 \<and> d \<le> t)"

text \<open>\<^verbatim>\<open>checkAndResetCooldowns\<close>: the \<^verbatim>\<open>forEach\<close> visits the indices in order and resets in
  place.\<close>

definition checkAndResetCooldowns :: "KeyManager \<Rightarrow> int \<Rightarrow> KeyManager" where
  "checkAndResetCooldowns km t =
     (case keys km of
        None \<Rightarrow> km
      | Some ks \<Rightarrow>
          fold (\<lambda>i m. case keys m of
                         None \<Rightarrow> m
                       | Some cur \<Rightarrow> if cooldownExpired (cur ! i) t then resetCooldown m i else m)
               [0..<length ks] km)"

definition getAvailableKeyCount :: "KeyManager \<Rightarrow> nat" where
  "getAvailableKeyCount km =
     (case keys km of None \<Rightarrow> 0 | Some ks \<Rightarrow> length (filter (\<lambda>k. \<not> inCooldown k) ks))"

definition getTotalKeyCount :: "KeyManager \<Rightarrow> nat" where
  "getTotalKeyCount km = (case keys km of None \<Rightarrow> 0 | Some ks \<Rightarrow> length ks)"

definition getCurrentKeyIndex :: "KeyManager \<Rightarrow> ApiSource \<Rightarrow> nat" where
  "getCurrentKeyIndex km name = currentIndexGet km name"

definition hasAvailableKey :: "KeyManager \<Rightarrow> int \<Rightarrow> bool \<times> KeyManager" where
  "hasAvailableKey km t =
     (let km1 = checkAndResetCooldowns km t in (0 < getAvailableKeyCount km1, km1))"

text \<open>
  The \<^verbatim>\<open>do ... while (currentIndex !== startIndex)\<close> loop of \<^verbatim>\<open>rotateKey\<close>, with fuel. The result
  is \<open>Some (Some i)\<close> when the loop returns true at index \<open>i\<close>, \<open>Some None\<close> when it leaves
  through its condition, and \<open>None\<close> when the fuel runs out. \<^verbatim>\<open>rotateKey\<close> gives it
  \<open>length ks\<close> iterations: the index advances modulo the length, so within that many
  iterations it has visited every position and either found a key or come back to a start
  index that is in range. Only from a start index out of range, with every key cooling down,
  does the loop of the source never end, and only then is the fuel exhausted.
\<close>

fun rotateLoop :: "ApiKeyInfo list \<Rightarrow> nat \<Rightarrow> nat \<Rightarrow> nat \<Rightarrow> nat option option" where
  "rotateLoop ks startIndex cur 0 = None"
| "rotateLoop ks startIndex cur (Suc fuel) =
     (let cur1 = (cur + 1) mod length ks in
      if \<not> inCooldown (ks ! cur1) then Some (Some cur1)
      else if cur1 \<noteq> startIndex then rotateLoop ks startIndex cur1 fuel
      else Some None)"

definition rotateKey :: "KeyManager \<Rightarrow> (bool \<times> KeyManager) option" where
  "rotateKey km =
     (case keys km of
        None \<Rightarrow> Some (False, km)
      | Some ks \<Rightarrow>
          if length ks \<le> 1 then Some (False, km)
          else
            (case rotateLoop ks (currentIndex km) (currentIndex km) (length ks) of
               None \<Rightarrow> None
             | Some None \<Rightarrow> Some (False, km)
             | Some (Some i) \<Rightarrow> Some (True, km\<lparr>currentIndex := i\<rparr>)))"

text \<open>A sequence of rate-limit marks, each given by its time and key index, and the effect
  of the sweep of \<^verbatim>\<open>checkAndResetCooldowns\<close> on one key (both are used to state properties).\<close>

definition markRateLimits ::
  "ResilienceConfig \<Rightarrow> KeyManager \<Rightarrow> (int \<times> nat) list \<Rightarrow> KeyManager" where
  "markRateLimits cfg km marks = fold (\<lambda>m k. markRateLimit cfg k (fst m) (snd m)) marks km"

definition sweepKey :: "int \<Rightarrow> ApiKeyInfo \<Rightarrow> ApiKeyInfo" where
  "sweepKey t k =
     (if cooldownExpired k t then k\<lparr>inCooldown := False, cooldownUntil := None\<rparr> else k)"

section \<open>Error detection (error-detection.ts)\<close>

definition lowerChar :: "char \<Rightarrow> char" where
  "lowerChar c =
     (case map_of (zip ''ABCDEFGHIJKLMNOPQRSTUVWXYZ'' ''abcdefghijklmnopqrstuvwxyz'') c of
        Some l \<Rightarrow> l
      | None \<Rightarrow> c)"

definition toLowerCase :: "string \<Rightarrow> string" where
  "toLowerCase s = map lowerChar s"

text \<open>\<^verbatim>\<open>s.includes(sub)\<close>: \<open>sub\<close> occurs in \<open>s\<close> as a contiguous run.\<close>

fun strIncludes :: "string \<Rightarrow> string \<Rightarrow> bool" where
  "strIncludes [] sub \<longleftrightarrow> sub = []"
| "strIncludes (c # cs) sub \<longleftrightarrow> take (length sub) (c # cs) = sub \<or> strIncludes cs sub"

definition isRateLimitError :: "thrown \<Rightarrow> bool" where
  "isRateLimitError error =
     (case error of
        NonError \<Rightarrow> False
      | JsError msg \<Rightarrow>
          (let message = toLowerCase msg in
           strIncludes message ''429'' \<or> strIncludes message ''rate limit'' \<or>
           strIncludes message ''rate-limit'' \<or> strIncludes message ''ratelimit'' \<or>
           strIncludes message ''too many requests'' \<or> strIncludes message ''quota exceeded'' \<or>
           strIncludes message ''api limit'' \<or> strIncludes message ''throttl''))"

definition isTransientError :: "thrown \<Rightarrow> bool" where
  "isTransientError error =
     (case error of
        NonError \<Rightarrow> False
      | JsError msg \<Rightarrow>
          (let message = toLowerCase msg in
           strIncludes message ''500'' \<or> strIncludes message ''502'' \<or>
           strIncludes message ''503'' \<or> strIncludes message ''504'' \<or>
           strIncludes message ''timeout'' \<or> strIncludes message ''econnreset'' \<or>
           strIncludes message ''econnrefused'' \<or> strIncludes message ''network''))"

definition instanceofError :: "thrown \<Rightarrow> bool" where
  "instanceofError error = (case error of JsError msg \<Rightarrow> True | NonError \<Rightarrow> False)"

definition shouldFailoverToNextSource :: "thrown \<Rightarrow> bool" where
  "shouldFailoverToNextSource error \<longleftrightarrow>
     isRateLimitError error \<or> isTransientError error \<or> instanceofError error"

section \<open>Dispatcher (resilient-api-client.ts)\<close>

text \<open>
  What lies outside the client during one dispatch: the clock read by \<^verbatim>\<open>Date.now()\<close>, and the
  log of the sources on which the executor has been invoked so far (not a variable of the
  source; it records the upstream calls so that properties can speak about them).
\<close>

record World =
  now :: int
  contacted :: "ApiSource list"

text \<open>
  The \<^verbatim>\<open>SourceExecutor\<close> is a closure that calls an upstream API. Its outcome is not
  determined by the program, so it is a parameter: given the calls made before and the
  source, it yields a thrown value or a result, and the milliseconds the call takes.
\<close>

type_synonym 'a SourceExecutor = "ApiSource list \<Rightarrow> ApiSource \<Rightarrow> (thrown + 'a) \<times> nat"

definition callExecutor :: "'a SourceExecutor \<Rightarrow> ApiSource \<Rightarrow> World \<Rightarrow> (thrown + 'a) \<times> World" where
  "callExecutor executor src w =
     (let r = executor (contacted w) src
      in (fst r, w\<lparr>now := now w + int (snd r), contacted := contacted w @ [src]\<rparr>))"

text \<open>
  The mutable fields of \<^verbatim>\<open>ResilientApiClient\<close>: whether \<^verbatim>\<open>getClientForSource\<close> yields a client
  (the constructor always creates those of Sina and East Money), the key managers, and the
  map \<^verbatim>\<open>circuitBreakers\<close>, which the constructor leaves empty.
\<close>

record ResilientApiClient =
  hasClient :: "ApiSource \<Rightarrow> bool"
  keyManagers :: "ApiSource \<Rightarrow> KeyManager option"
  circuitBreakers :: "string \<Rightarrow> CircuitBreaker option"
  config :: ResilienceConfig

record FailoverAttempt =
  source :: ApiSource
  keyIndex :: nat
  startTime :: int
  endTime :: int
  durationMs :: int
  success :: bool
  error :: "thrown option"

text \<open>\<^verbatim>\<open>CascadingFailoverResult\<close>; its field \<^verbatim>\<open>source\<close> is named \<open>winningSource\<close> here, since
  the attempt record has a field of the same name.\<close>

record 'a CascadingFailoverResult =
  data :: 'a
  winningSource :: ApiSource
  attempts :: "FailoverAttempt list"
  totalDurationMs :: int

text \<open>
  How a dispatch ends: it returns a result, rethrows the value an attempt threw (no attempt
  list is attached to it), or throws the aggregate error, whose message and \<^verbatim>\<open>attempts\<close>
  property are kept.
\<close>

datatype 'a DispatchOutcome =
    Returned "'a CascadingFailoverResult"
  | Rethrown thrown
  | AggregateError string "FailoverAttempt list"

fun sourceName :: "ApiSource \<Rightarrow> string" where
  "sourceName Finnhub = ''finnhub''"
| "sourceName Alphavantage = ''alphavantage''"
| "sourceName Twelvedata = ''twelvedata''"
| "sourceName Tiingo = ''tiingo''"
| "sourceName Sina = ''sina''"
| "sourceName Eastmoney = ''eastmoney''"

definition isSourceAvailable ::
  "ResilientApiClient \<Rightarrow> ApiSource \<Rightarrow> int \<Rightarrow> bool \<times> ResilientApiClient" where
  "isSourceAvailable c src t =
     (if \<not> hasClient c src then (False, c)
      else
        (case keyManagers c src of
           None \<Rightarrow> (True, c)
         | Some km \<Rightarrow>
             (let r = hasAvailableKey km t
              in (fst r, c\<lparr>keyManagers := (keyManagers c)(src := Some (snd r))\<rparr>))))"

text \<open>
  The \<^verbatim>\<open>for\<close> loop of \<^verbatim>\<open>executeWithKeyRotation\<close> with \<open>n\<close> iterations left. \<open>lastError\<close> is the
  variable of that name. \<open>None\<close> is returned only when \<^verbatim>\<open>rotateKey\<close> does not return.
\<close>

fun keyRotationLoop ::
  "ResilienceConfig \<Rightarrow> 'a SourceExecutor \<Rightarrow> ApiSource \<Rightarrow> nat \<Rightarrow> thrown option \<Rightarrow>
     KeyManager \<Rightarrow> World \<Rightarrow> ((thrown + 'a) \<times> KeyManager \<times> World) option" where
  "keyRotationLoop cfg executor src 0 lastError km w =
     Some (Inl (case lastError of
                  Some e \<Rightarrow> e
                | None \<Rightarrow> JsError (''All keys exhausted for '' @ sourceName src)), km, w)"
| "keyRotationLoop cfg executor src (Suc n) lastError km w =
     (case getNextKey km src of
        (Inl e, km1) \<Rightarrow> Some (Inl e, km1, w)
      | (Inr None, km1) \<Rightarrow> keyRotationLoop cfg executor src 0 lastError km1 w
      | (Inr (Some keyInfo), km1) \<Rightarrow>
          (case callExecutor executor src w of
             (Inr result, w1) \<Rightarrow> Some (Inr result, recordUsage km1 (now w1) (index keyInfo), w1)
           | (Inl err, w1) \<Rightarrow>
               if isRateLimitError err then
                 (case rotateKey (markRateLimit cfg km1 (now w1) (index keyInfo)) of
                    None \<Rightarrow> None
                  | Some (rotated, km2) \<Rightarrow>
                      if \<not> rotated then keyRotationLoop cfg executor src 0 (Some err) km2 w1
                      else keyRotationLoop cfg executor src n (Some err) km2 w1)
               else Some (Inl err, km1, w1)))"

definition executeWithKeyRotation ::
  "'a SourceExecutor \<Rightarrow> ApiSource \<Rightarrow> ResilientApiClient \<Rightarrow> World \<Rightarrow>
     ((thrown + 'a) \<times> ResilientApiClient \<times> World) option" where
  "executeWithKeyRotation executor src c w =
     (case keyManagers c src of
        None \<Rightarrow> (case callExecutor executor src w of (r, w1) \<Rightarrow> Some (r, c, w1))
      | Some km \<Rightarrow>
          (case keyRotationLoop (config c) executor src (getTotalKeyCount km) None km w of
             None \<Rightarrow> None
           | Some (r, km1, w1) \<Rightarrow>
               Some (r, c\<lparr>keyManagers := (keyManagers c)(src := Some km1)\<rparr>, w1)))"

text \<open>\<^verbatim>\<open>xs.join(', ')\<close>.\<close>

fun joinComma :: "string list \<Rightarrow> string" where
  "joinComma [] = []"
| "joinComma [x] = x"
| "joinComma (x # y # ys) = x @ '', '' @ joinComma (y # ys)"

text \<open>The message of the aggregate error, from the errors of the failed attempts. Every
  error recorded by then is an \<^verbatim>\<open>Error\<close> object, since any other thrown value is rethrown
  at once; the messages of the \<^verbatim>\<open>Error\<close> objects are joined.\<close>

definition aggregateMessage :: "string \<Rightarrow> FailoverAttempt list \<Rightarrow> string" where
  "aggregateMessage toolName atts =
     ''All sources failed for '' @ toolName @ '': '' @
       joinComma (concat (map (\<lambda>a. case error a of Some (JsError m) \<Rightarrow> [m] | _ \<Rightarrow> [])
                              (filter (\<lambda>a. \<not> success a) atts)))"

text \<open>
  The \<^verbatim>\<open>for (const source of sources)\<close> loop of \<^verbatim>\<open>executeWithCascadingFailover\<close> over the
  candidates still to visit, with the attempts recorded so far. Beside the outcome it
  returns the local array \<^verbatim>\<open>attempts\<close> as it stands at the exit, the client and the world.
\<close>

fun cascade ::
  "string \<Rightarrow> 'a SourceExecutor \<Rightarrow> int \<Rightarrow> ApiSource list \<Rightarrow> FailoverAttempt list \<Rightarrow>
     ResilientApiClient \<Rightarrow> World \<Rightarrow>
     ('a DispatchOutcome \<times> FailoverAttempt list \<times> ResilientApiClient \<times> World) option" where
  "cascade toolName executor overallStartTime [] atts c w =
     Some (AggregateError (aggregateMessage toolName atts) atts, atts, c, w)"
| "cascade toolName executor overallStartTime (src # rest) atts c w =
     (case isSourceAvailable c src (now w) of
        (False, c1) \<Rightarrow> cascade toolName executor overallStartTime rest atts c1 w
      | (True, c1) \<Rightarrow>
          (let kIndex = (case keyManagers c1 src of
                           None \<Rightarrow> 0
                         | Some km \<Rightarrow> getCurrentKeyIndex km src);
               attemptStart = now w
           in case executeWithKeyRotation executor src c1 w of
                None \<Rightarrow> None
              | Some (Inr d, c2, w2) \<Rightarrow>
                  (let atts1 = atts @
                         [\<lparr>source = src, keyIndex = kIndex, startTime = attemptStart,
                           endTime = now w2, durationMs = now w2 - attemptStart,
                           success = True, error = None\<rparr>]
                   in Some (Returned \<lparr>data = d, winningSource = src, attempts = atts1,
                                      totalDurationMs = now w2 - overallStartTime\<rparr>,
                            atts1, c2, w2))
              | Some (Inl err, c2, w2) \<Rightarrow>
                  (let atts1 = atts @
                         [\<lparr>source = src, keyIndex = kIndex, startTime = attemptStart,
                           endTime = now w2, durationMs = now w2 - attemptStart,
                           success = False, error = Some err\<rparr>]
                   in if \<not> shouldFailoverToNextSource err
                      then Some (Rethrown err, atts1, c2, w2)
                      else cascade toolName executor overallStartTime rest atts1 c2 w2)))"

text \<open>\<^verbatim>\<open>executeWithCascadingFailover(toolName, executor, symbol?)\<close>; the first argument is the
  router's \<^verbatim>\<open>customPriorities\<close>.\<close>

definition executeWithCascadingFailover ::
  "(string \<Rightarrow> ApiSource list option) \<Rightarrow> ResilientApiClient \<Rightarrow> World \<Rightarrow>
     string \<Rightarrow> 'a SourceExecutor \<Rightarrow> string option \<Rightarrow>
     ('a DispatchOutcome \<times> FailoverAttempt list \<times> ResilientApiClient \<times> World) option" where
  "executeWithCascadingFailover customPriorities c w toolName executor symbol =
     cascade toolName executor (now w) (getSourcesForTool customPriorities toolName symbol) [] c w"

text \<open>
  The constructor. Its arguments are the four clients that may be passed (\<open>given\<close> tells
  which of them are present; the server always passes those of Finnhub and Alpha Vantage),
  the configuration, and the environment, which maps a source to the key strings of its
  variable. \<^verbatim>\<open>initializeKeyManagers\<close> creates a key manager for each of the four sources whose
  client is present.
\<close>

definition newResilientApiClient ::
  "(ApiSource \<Rightarrow> bool) \<Rightarrow> (ApiSource \<Rightarrow> string list option) \<Rightarrow> ResilienceConfig \<Rightarrow>
     ResilientApiClient" where
  "newResilientApiClient given env cfg =
     \<lparr>hasClient = (\<lambda>s. s = Sina \<or> s = Eastmoney \<or> given s),
      keyManagers = (\<lambda>s. if s \<noteq> Sina \<and> s \<noteq> Eastmoney \<and> given s
                          then Some (newKeyManager s (env s)) else None),
      circuitBreakers = (\<lambda>name. None),
      config = cfg\<rparr>"

text \<open>\<^verbatim>\<open>DEFAULT_RESILIENCE_CONFIG\<close>, restricted to the fields modelled.\<close>

definition DEFAULT_RESILIENCE_CONFIG :: ResilienceConfig where
  "DEFAULT_RESILIENCE_CONFIG =
     \<lparr>circuitBreakerEnabled = True, circuitBreakerFailureThreshold = 5,
      circuitBreakerTimeoutMs = 60000, keyRotationResetWindowMs = 3600000\<rparr>"

section \<open>Backoff delay (api-retry.ts)\<close>

text \<open>
  JavaScript numbers are IEEE doubles. The model keeps what decides the properties below: a
  number is finite, one of the two infinities, or \<^verbatim>\<open>NaN\<close>, and an arithmetic result whose
  magnitude reaches \<open>2 ^ 1024\<close> overflows to an infinity. Finite results are exact reals:
  rounding to the nearest double is not modelled.
\<close>

datatype jsnum = Fin real | PosInf | NegInf | NaN

definition overflowBound :: real where
  "overflowBound = 2 ^ 1024"

definition overflow :: "real \<Rightarrow> jsnum" where
  "overflow x =
     (if overflowBound \<le> x then PosInf else if x \<le> - overflowBound then NegInf else Fin x)"

text \<open>The product: \<^verbatim>\<open>NaN\<close> is absorbing, zero times an infinity is \<^verbatim>\<open>NaN\<close>, and an infinity
  otherwise takes the product of the signs.\<close>

fun jsSign :: "jsnum \<Rightarrow> real" where
  "jsSign (Fin x) = sgn x"
| "jsSign PosInf = 1"
| "jsSign NegInf = - 1"
| "jsSign NaN = 0"

definition jsMul :: "jsnum \<Rightarrow> jsnum \<Rightarrow> jsnum" where
  "jsMul a b =
     (case (a, b) of
        (NaN, _) \<Rightarrow> NaN
      | (_, NaN) \<Rightarrow> NaN
      | (Fin x, Fin y) \<Rightarrow> overflow (x * y)
      | _ \<Rightarrow> (if jsSign a * jsSign b = 0 then NaN
               else if 0 < jsSign a * jsSign b then PosInf else NegInf))"

definition jsAdd :: "jsnum \<Rightarrow> jsnum \<Rightarrow> jsnum" where
  "jsAdd a b =
     (case (a, b) of
        (NaN, _) \<Rightarrow> NaN
      | (_, NaN) \<Rightarrow> NaN
      | (Fin x, Fin y) \<Rightarrow> overflow (x + y)
      | (PosInf, NegInf) \<Rightarrow> NaN
      | (NegInf, PosInf) \<Rightarrow> NaN
      | (PosInf, _) \<Rightarrow> PosInf
      | (NegInf, _) \<Rightarrow> NegInf
      | (_, PosInf) \<Rightarrow> PosInf
      | (_, NegInf) \<Rightarrow> NegInf)"

fun jsNeg :: "jsnum \<Rightarrow> jsnum" where
  "jsNeg (Fin x) = Fin (- x)"
| "jsNeg PosInf = NegInf"
| "jsNeg NegInf = PosInf"
| "jsNeg NaN = NaN"

definition jsSub :: "jsnum \<Rightarrow> jsnum \<Rightarrow> jsnum" where
  "jsSub a b = jsAdd a (jsNeg b)"

text \<open>\<^verbatim>\<open>Math.pow(2, n)\<close> for a natural number \<open>n\<close>, \<^verbatim>\<open>Math.min\<close>, \<^verbatim>\<open>Math.max\<close> and
  \<^verbatim>\<open>Math.floor\<close>; the first three yield \<^verbatim>\<open>NaN\<close> when an argument is \<^verbatim>\<open>NaN\<close>.\<close>

definition mathPow2 :: "nat \<Rightarrow> jsnum" where
  "mathPow2 n = overflow (2 ^ n)"

definition mathMin :: "jsnum \<Rightarrow> jsnum \<Rightarrow> jsnum" where
  "mathMin a b =
     (case (a, b) of
        (NaN, _) \<Rightarrow> NaN
      | (_, NaN) \<Rightarrow> NaN
      | (NegInf, _) \<Rightarrow> NegInf
      | (_, NegInf) \<Rightarrow> NegInf
      | (PosInf, _) \<Rightarrow> b
      | (_, PosInf) \<Rightarrow> a
      | (Fin x, Fin y) \<Rightarrow> Fin (min x y))"

definition mathMax :: "jsnum \<Rightarrow> jsnum \<Rightarrow> jsnum" where
  "mathMax a b =
     (case (a, b) of
        (NaN, _) \<Rightarrow> NaN
      | (_, NaN) \<Rightarrow> NaN
      | (PosInf, _) \<Rightarrow> PosInf
      | (_, PosInf) \<Rightarrow> PosInf
      | (NegInf, _) \<Rightarrow> b
      | (_, NegInf) \<Rightarrow> a
      | (Fin x, Fin y) \<Rightarrow> Fin (max x y))"

fun mathFloor :: "jsnum \<Rightarrow> jsnum" where
  "mathFloor (Fin x) = Fin (of_int \<lfloor>x\<rfloor>)"
| "mathFloor PosInf = PosInf"
| "mathFloor NegInf = NegInf"
| "mathFloor NaN = NaN"

text \<open>\<^verbatim>\<open>calculateBackoffDelay\<close>; the last argument is the value drawn by \<^verbatim>\<open>Math.random()\<close>.\<close>

definition calculateBackoffDelay :: "nat \<Rightarrow> jsnum \<Rightarrow> jsnum \<Rightarrow> jsnum \<Rightarrow> jsnum" where
  "calculateBackoffDelay attemptNumber initialDelayMs maxDelayMs random =
     (let baseDelay = jsMul initialDelayMs (mathPow2 attemptNumber);
          jitterPercent = Fin 0.25;
          jitterRange = jsMul baseDelay jitterPercent;
          jitter = jsMul (jsMul (jsSub random (Fin 0.5)) (Fin 2)) jitterRange;
          delay = mathMin (jsAdd baseDelay jitter) maxDelayMs
      in mathMax (Fin 0) (mathFloor delay))"

text \<open>A value that is a non-negative integer not above \<open>m\<close>.\<close>

definition nonNegIntegerUpTo :: "jsnum \<Rightarrow> jsnum \<Rightarrow> bool" where
  "nonNegIntegerUpTo m v \<longleftrightarrow>
     (case (v, m) of
        (Fin x, Fin y) \<Rightarrow> 0 \<le> x \<and> x \<le> y \<and> x = of_int \<lfloor>x\<rfloor>
      | _ \<Rightarrow> False)"

section \<open>Concrete runs\<close>

text \<open>
  \<open>serverClient\<close> is the client as the server script builds it: the clients of
  Finnhub and Alpha Vantage are always passed, those of TwelveData and Tiingo only when their
  variable holds a key. \<open>perSource\<close> is an executor whose outcome depends on the source only,
  and \<open>rateLimitedOnce\<close> one whose first call hits a rate limit and whose later calls succeed.
\<close>

definition serverClient :: "(ApiSource \<Rightarrow> string list option) \<Rightarrow> ResilientApiClient" where
  "serverClient env =
     newResilientApiClient (\<lambda>s. s = Finnhub \<or> s = Alphavantage \<or> env s \<noteq> None) env
       DEFAULT_RESILIENCE_CONFIG"


definition rateLimitedOnce :: "string SourceExecutor" where
  "rateLimitedOnce =
     (\<lambda>history src. if history = [] then (Inl (JsError ''HTTP 429: Too Many Requests''), 5)
                      else (Inr ''quote'', 7))"

definition startWorld :: World where
  "startWorld = \<lparr>now = 1000, contacted = []\<rparr>"

section \<open>Properties of the symbol classifier\<close>


lemma take_one_eq: "take (Suc 0) code = [c] \<longleftrightarrow> code \<noteq> [] \<and> hd code = c"
  by (cases code) auto

lemma digits_not_letters: "list_all isDigit s \<Longrightarrow> s \<noteq> [] \<Longrightarrow> \<not> list_all isUpperLetter s"
  by (cases s) (auto simp: isUpperLetter_def isDigit_def)




text \<open>The symbols left out above are classified as follows: the three further suffixes
  give US, a market prefix before six digits gives that market, and a symbol holding five or
  six digit characters is classified as its digits alone would be.\<close>

lemma getMarketFromSymbol_us_suffixes:
  assumes "\<not> endsWith (toUpperCase s) ''.SH''" "\<not> endsWith (toUpperCase s) ''.SS''"
    "\<not> endsWith (toUpperCase s) ''.SZ''" "\<not> endsWith (toUpperCase s) ''.BJ''"
    "\<not> endsWith (toUpperCase s) ''.HK''"
    and "endsWith (toUpperCase s) ''.US'' \<or> endsWith (toUpperCase s) ''.N'' \<or>
      endsWith (toUpperCase s) ''.O''"
  shows "getMarketFromSymbol s = US"
  using assms by (simp add: getMarketFromSymbol_def Let_def)

lemma getMarketFromSymbol_market_prefix:
  assumes "\<not> endsWith (toUpperCase s) ''.SH''" "\<not> endsWith (toUpperCase s) ''.SS''"
    "\<not> endsWith (toUpperCase s) ''.SZ''" "\<not> endsWith (toUpperCase s) ''.BJ''"
    "\<not> endsWith (toUpperCase s) ''.HK''" "\<not> endsWith (toUpperCase s) ''.US''"
    "\<not> endsWith (toUpperCase s) ''.N''" "\<not> endsWith (toUpperCase s) ''.O''"
  shows "matchesPrefixSixDigits ''SH'' s \<Longrightarrow> getMarketFromSymbol s = SH"
    and "matchesPrefixSixDigits ''SZ'' s \<Longrightarrow> getMarketFromSymbol s = SZ"
    and "matchesPrefixSixDigits ''BJ'' s \<Longrightarrow> getMarketFromSymbol s = BJ"
  using assms
  by (auto simp add: getMarketFromSymbol_def Let_def matchesPrefixSixDigits_def)

lemma letters_no_digits: "list_all isUpperLetter s \<Longrightarrow> filter isDigit s = []"
  by (induction s) (auto simp: isUpperLetter_def isDigit_def)

lemma digits_no_suffix:
  assumes "list_all isDigit s"
  shows "\<not> endsWith (toUpperCase s) (CHR ''.'' # suf)"
proof
  assume e: "endsWith (toUpperCase s) (CHR ''.'' # suf)"
  let ?k = "length (toUpperCase s) - length (CHR ''.'' # suf)"
  from e have "drop ?k (toUpperCase s) = CHR ''.'' # suf" by (simp add: endsWith_def)
  then have "CHR ''.'' \<in> set (drop ?k (toUpperCase s))" by simp
  then have "CHR ''.'' \<in> set (toUpperCase s)" by (rule in_set_dropD)
  then obtain c where c: "c \<in> set s" "upperChar c = CHR ''.''"
    by (auto simp add: toUpperCase_def)
  from assms c(1) have "isDigit c" by (simp add: list_all_iff)
  with c(2) show False by (auto simp add: isDigit_def upperChar_def)
qed

lemma getMarketFromSymbol_by_digits:
  assumes "\<not> endsWith (toUpperCase s) ''.SH''" "\<not> endsWith (toUpperCase s) ''.SS''"
    "\<not> endsWith (toUpperCase s) ''.SZ''" "\<not> endsWith (toUpperCase s) ''.BJ''"
    "\<not> endsWith (toUpperCase s) ''.HK''" "\<not> endsWith (toUpperCase s) ''.US''"
    "\<not> endsWith (toUpperCase s) ''.N''" "\<not> endsWith (toUpperCase s) ''.O''"
    and "\<not> matchesPrefixSixDigits ''SH'' s" "\<not> matchesPrefixSixDigits ''SZ'' s"
      "\<not> matchesPrefixSixDigits ''BJ'' s"
    and len: "length (filter isDigit s) = 5 \<or> length (filter isDigit s) = 6"
  shows "getMarketFromSymbol s = spec_classify (filter isDigit s)"
proof -
  define code where "code = filter isDigit s"
  have d: "list_all isDigit code" by (simp add: list_all_iff code_def)
  have ne: "code \<noteq> []" using len by (auto simp add: code_def)
  have nl: "\<not> list_all isUpperLetter code" using d ne by (rule digits_not_letters)
  have nm: "\<not> matchesOneToFiveLetters s"
    using len letters_no_digits [of s] by (auto simp add: matchesOneToFiveLetters_def)
  have suf: "\<not> endsWith (toUpperCase code) ''.SH''" "\<not> endsWith (toUpperCase code) ''.SS''"
    "\<not> endsWith (toUpperCase code) ''.SZ''" "\<not> endsWith (toUpperCase code) ''.BJ''"
    "\<not> endsWith (toUpperCase code) ''.HK''"
    using d by (rule digits_no_suffix)+
  have lhs: "getMarketFromSymbol s =
      (if length code = 6 \<and> (take 1 code = ''6'' \<or> take 1 code = ''5'') then SH
       else if length code = 6 \<and> (take 1 code = ''0'' \<or> take 1 code = ''3'' \<or> take 1 code = ''2'')
       then SZ
       else if length code = 6 \<and> (take 1 code = ''4'' \<or> take 1 code = ''8'') then BJ
       else if length code = 5 then HK else UNKNOWN)"
    using assms(1-11) nm d by (simp add: getMarketFromSymbol_def Let_def code_def [symmetric])
  have rhs: "spec_classify code =
      (if length code = 6 then
         (if hd code \<in> set ''65'' then SH
          else if hd code \<in> set ''023'' then SZ
          else if hd code \<in> set ''48'' then BJ
          else UNKNOWN)
       else if length code = 5 then HK else UNKNOWN)"
    using suf d nl by (simp add: spec_classify_def)
  show ?thesis
    unfolding lhs rhs code_def [symmetric] using ne len
    by (auto simp add: take_one_eq code_def)
qed

section \<open>Properties of the source router\<close>




section \<open>Properties of the circuit breaker\<close>

lemma executeCalls_append:
  "executeCalls cfg b (xs @ ys) = executeCalls cfg (executeCalls cfg b xs) ys"
  by (induction xs arbitrary: b) auto

lemma execute_failure_closed:
  assumes "circuitBreakerEnabled cfg" "circuitState b \<noteq> Open" "fst fn = Inl e"
  shows "failureCount (snd (execute cfg b t fn)) = failureCount b + 1"
    and "circuitState (snd (execute cfg b t fn)) =
           (if circuitBreakerFailureThreshold cfg \<le> int (failureCount b) + 1 then Open
            else circuitState b)"
  using assms by (simp_all add: execute_def onFailure_def Let_def)

lemma execute_success:
  assumes "circuitBreakerEnabled cfg" "circuitState b \<noteq> Open" "fst fn = Inr v"
  shows "fst (execute cfg b t fn) = Resolved v"
    and "failureCount (snd (execute cfg b t fn)) = 0"
    and "circuitState (snd (execute cfg b t fn)) = Closed"
  using assms by (simp_all add: execute_def onSuccess_def Let_def)

lemma failures_below_threshold:
  assumes "circuitBreakerEnabled cfg" "\<forall>c \<in> set calls. failedCall c"
    and "circuitState b = Closed"
    and "int (failureCount b) + int (length calls) < circuitBreakerFailureThreshold cfg"
  shows "circuitState (executeCalls cfg b calls) = Closed \<and>
         failureCount (executeCalls cfg b calls) = failureCount b + length calls"
  using assms
proof (induction calls arbitrary: b)
  case Nil
  then show ?case by simp
next
  case (Cons c calls)
  obtain t fn where c: "c = (t, fn)" by (cases c) auto
  from Cons.prems(2) c obtain e where e: "fst fn = Inl e"
    by (auto simp: failedCall_def split: sum.splits)
  let ?b = "snd (execute cfg b t fn)"
  have cnt: "failureCount ?b = failureCount b + 1"
    using execute_failure_closed(1) [OF Cons.prems(1) _ e] Cons.prems(3) by simp
  have st: "circuitState ?b = Closed"
    using execute_failure_closed(2) [OF Cons.prems(1) _ e, of b t] Cons.prems(3,4) by simp
  have "circuitState (executeCalls cfg ?b calls) = Closed \<and>
        failureCount (executeCalls cfg ?b calls) = failureCount ?b + length calls"
    using Cons.prems(1,2,4) st cnt by (intro Cons.IH) auto
  then show ?case by (simp add: c cnt)
qed

lemma execute_open_short_circuits:
  assumes "circuitBreakerEnabled cfg" "circuitState b = Open"
  shows "execute cfg b t fn =
    (RejectedCircuitOpen (ceilSeconds (circuitBreakerTimeoutMs cfg - (t - lastFailureTime b))), b)"
  using assms by (simp add: execute_def)

text \<open>
  C5, as stated: for every failure threshold \<open>t\<close>, exactly \<open>t\<close> consecutive failed calls
  open a breaker that starts closed with no failure counted. It does not hold for a threshold
  of 0, which \<^verbatim>\<open>parseInt\<close> accepts: after 0 failed calls the breaker is closed, and it opens
  on the first failure.
\<close>

theorem breaker_threshold_zero_counterexample:
  "circuitState (executeCalls (DEFAULT_RESILIENCE_CONFIG\<lparr>circuitBreakerFailureThreshold := 0\<rparr>)
       newCircuitBreaker ([] :: (int \<times> (thrown + unit) \<times> nat) list)) = Closed \<and>
   circuitState (executeCalls (DEFAULT_RESILIENCE_CONFIG\<lparr>circuitBreakerFailureThreshold := 0\<rparr>)
       newCircuitBreaker [(0, Inl (JsError ''HTTP 500'') :: thrown + unit, 0)]) = Open"
  by (simp add: DEFAULT_RESILIENCE_CONFIG_def newCircuitBreaker_def execute_def onFailure_def)

text \<open>
  C5, amended: for every breaker with a failure threshold \<open>t\<close> of at least 1 that is enabled
  and starts closed with \<^verbatim>\<open>failureCount\<close> 0, after fewer than \<open>t\<close> consecutive failed calls
  through \<^verbatim>\<open>execute\<close> it is still closed (and has counted them), and after exactly \<open>t\<close> it is
  open; and any successful call through \<^verbatim>\<open>execute\<close> while it is closed or half-open resets
  \<^verbatim>\<open>failureCount\<close> to 0 and leaves it closed.
\<close>

theorem breaker_opens_after_threshold_failures:
  assumes "circuitBreakerEnabled cfg"
    and "1 \<le> circuitBreakerFailureThreshold cfg"
    and "circuitState b = Closed" "failureCount b = 0"
    and "\<forall>c \<in> set (calls :: (int \<times> (thrown + 'a) \<times> nat) list). failedCall c"
  shows "(int (length calls) < circuitBreakerFailureThreshold cfg \<longrightarrow>
            circuitState (executeCalls cfg b calls) = Closed \<and>
            failureCount (executeCalls cfg b calls) = length calls) \<and>
         (int (length calls) = circuitBreakerFailureThreshold cfg \<longrightarrow>
            circuitState (executeCalls cfg b calls) = Open) \<and>
         (\<forall>b1 t (fn :: (thrown + 'a) \<times> nat) v.
            circuitState b1 \<noteq> Open \<and> fst fn = Inr v \<longrightarrow>
            fst (execute cfg b1 t fn) = Resolved v \<and>
            failureCount (snd (execute cfg b1 t fn)) = 0 \<and>
            circuitState (snd (execute cfg b1 t fn)) = Closed)"
proof (intro conjI impI allI)
  assume "int (length calls) < circuitBreakerFailureThreshold cfg"
  with failures_below_threshold [OF assms(1) assms(5) assms(3)] assms(4)
  show "circuitState (executeCalls cfg b calls) = Closed"
    and "failureCount (executeCalls cfg b calls) = length calls" by simp_all
next
  assume len: "int (length calls) = circuitBreakerFailureThreshold cfg"
  with assms(2) have "calls \<noteq> []" by auto
  then obtain init c where split: "calls = init @ [c]"
    by (metis rev_exhaust)
  obtain t fn where c: "c = (t, fn)" by (cases c) auto
  from assms(5) split c obtain e where e: "fst fn = Inl e"
    by (auto simp: failedCall_def split: sum.splits)
  let ?b = "executeCalls cfg b init"
  have "circuitState ?b = Closed \<and> failureCount ?b = failureCount b + length init"
    using assms(1,3,4,5) len split by (intro failures_below_threshold) auto
  then have st: "circuitState ?b = Closed" and cnt: "failureCount ?b = length init"
    using assms(4) by simp_all
  have "circuitState (snd (execute cfg ?b t fn)) = Open"
    using execute_failure_closed(2) [OF assms(1) _ e, of ?b t] st cnt len split by simp
  then show "circuitState (executeCalls cfg b calls) = Open"
    by (simp add: split c executeCalls_append)
next
  fix b1 :: CircuitBreaker and t and fn :: "(thrown + 'a) \<times> nat" and v
  assume h: "circuitState b1 \<noteq> Open \<and> fst fn = Inr v"
  then show "fst (execute cfg b1 t fn) = Resolved v"
    "failureCount (snd (execute cfg b1 t fn)) = 0"
    "circuitState (snd (execute cfg b1 t fn)) = Closed"
    using execute_success [OF assms(1), of b1 fn v t] by simp_all
qed


theorem breaker_opens_after_threshold_failures_witness:
  "circuitBreakerEnabled DEFAULT_RESILIENCE_CONFIG \<and>
   1 \<le> circuitBreakerFailureThreshold DEFAULT_RESILIENCE_CONFIG \<and>
   circuitState newCircuitBreaker = Closed \<and> failureCount newCircuitBreaker = 0 \<and>
   failedCall (0, Inl (JsError ''HTTP 500'') :: thrown + unit, 0) \<and>
   circuitState (executeCalls DEFAULT_RESILIENCE_CONFIG newCircuitBreaker
     (replicate 5 (0, Inl (JsError ''HTTP 500'') :: thrown + unit, 0))) = Open \<and>
   circuitState (executeCalls DEFAULT_RESILIENCE_CONFIG newCircuitBreaker
     (replicate 4 (0, Inl (JsError ''HTTP 500'') :: thrown + unit, 0))) = Closed"
proof -
  let ?c = "(0, Inl (JsError ''HTTP 500''), 0) :: int \<times> (thrown + unit) \<times> nat"
  have h: "circuitBreakerEnabled DEFAULT_RESILIENCE_CONFIG"
    "1 \<le> circuitBreakerFailureThreshold DEFAULT_RESILIENCE_CONFIG"
    "circuitState newCircuitBreaker = Closed" "failureCount newCircuitBreaker = 0"
    by (simp_all add: DEFAULT_RESILIENCE_CONFIG_def newCircuitBreaker_def)
  have f: "failedCall ?c" by (simp add: failedCall_def)
  then have all: "\<forall>c \<in> set (replicate n ?c). failedCall c" for n by simp
  have t: "circuitBreakerFailureThreshold DEFAULT_RESILIENCE_CONFIG = 5"
    by (simp add: DEFAULT_RESILIENCE_CONFIG_def)
  from breaker_opens_after_threshold_failures [OF h all, of 5]
  have five: "circuitState (executeCalls DEFAULT_RESILIENCE_CONFIG newCircuitBreaker
     (replicate 5 ?c)) = Open" using t by simp
  from breaker_opens_after_threshold_failures [OF h all, of 4]
  have four: "circuitState (executeCalls DEFAULT_RESILIENCE_CONFIG newCircuitBreaker
     (replicate 4 ?c)) = Closed" using t by simp
  from h f five four show ?thesis by simp
qed

text \<open>
  C6: a call through \<^verbatim>\<open>execute\<close> on an open breaker, made when \<^verbatim>\<open>circuitBreakerTimeoutMs\<close> has
  elapsed since the last failure, should move the breaker to half-open and let the call
  through. The source does not do so. \<^verbatim>\<open>execute\<close> computes \<^verbatim>\<open>timeUntilHalfOpen\<close> only for the
  message of the error it throws: five failures at time 0 open the breaker, and a call 60000
  ms later is still refused (with the message \<^verbatim>\<open>Retry after 0s\<close>) and leaves the breaker open,
  while \<^verbatim>\<open>testRecovery\<close>, given the same breaker, time and call, lets the call through and
  closes the breaker.
\<close>

theorem execute_ignores_elapsed_timeout:
  "executeCalls DEFAULT_RESILIENCE_CONFIG newCircuitBreaker
       (replicate 5 (0, Inl (JsError ''HTTP 500'') :: thrown + 'a, 0)) =
     \<lparr>circuitState = Open, failureCount = 5, lastFailureTime = 0, lastStateChange = 0\<rparr> \<and>
   execute DEFAULT_RESILIENCE_CONFIG
       \<lparr>circuitState = Open, failureCount = 5, lastFailureTime = 0, lastStateChange = 0\<rparr>
       60000 (Inr (v :: 'a), d) =
     (RejectedCircuitOpen 0,
      \<lparr>circuitState = Open, failureCount = 5, lastFailureTime = 0, lastStateChange = 0\<rparr>) \<and>
   testRecovery DEFAULT_RESILIENCE_CONFIG
       \<lparr>circuitState = Open, failureCount = 5, lastFailureTime = 0, lastStateChange = 0\<rparr>
       60000 (Inr v, d) =
     (Resolved v,
      \<lparr>circuitState = Closed, failureCount = 0, lastFailureTime = 0,
       lastStateChange = 60000 + int d\<rparr>)"
proof -
  have "replicate 5 (0 :: int, Inl (JsError ''HTTP 500'') :: thrown + 'a, 0 :: nat) =
      [(0, Inl (JsError ''HTTP 500''), 0), (0, Inl (JsError ''HTTP 500''), 0),
       (0, Inl (JsError ''HTTP 500''), 0), (0, Inl (JsError ''HTTP 500''), 0),
       (0, Inl (JsError ''HTTP 500''), 0)]"
    by (simp add: numeral_eq_Suc)
  then show ?thesis
    by (simp add: DEFAULT_RESILIENCE_CONFIG_def newCircuitBreaker_def execute_def
        testRecovery_def onFailure_def onSuccess_def ceilSeconds_def)
qed

section \<open>Properties of the key manager\<close>

subsection \<open>markRateLimit\<close>

lemma markRateLimit_frame:
  "apiName (markRateLimit cfg km t i) = apiName km"
  "currentIndex (markRateLimit cfg km t i) = currentIndex km"
  by (simp_all add: markRateLimit_def split: option.splits)

lemma markRateLimit_keys:
  assumes "keys km = Some ks"
  shows "\<exists>ks1. keys (markRateLimit cfg km t i) = Some ks1 \<and> length ks1 = length ks \<and>
           (\<forall>j < length ks. inCooldown (ks1 ! j) \<longleftrightarrow> j = i \<or> inCooldown (ks ! j))"
  using assms by (auto simp add: markRateLimit_def nth_list_update)

lemma markRateLimits_keys:
  assumes "keys km = Some ks"
  shows "\<exists>ks1. keys (markRateLimits cfg km marks) = Some ks1 \<and>
           length ks1 = length ks \<and>
           (\<forall>j < length ks. inCooldown (ks1 ! j) \<longleftrightarrow> j \<in> snd ` set marks \<or> inCooldown (ks ! j))"
  using assms unfolding markRateLimits_def
proof (induction marks arbitrary: km ks)
  case Nil
  then show ?case by simp
next
  case (Cons m marks)
  from markRateLimit_keys [OF Cons.prems, of cfg "fst m" "snd m"]
  obtain ks1 where ks1: "keys (markRateLimit cfg km (fst m) (snd m)) = Some ks1"
    "length ks1 = length ks"
    "\<forall>j < length ks. inCooldown (ks1 ! j) \<longleftrightarrow> j = snd m \<or> inCooldown (ks ! j)"
    by blast
  from Cons.IH [OF ks1(1)] obtain ks2 where
    ks2: "keys (fold (\<lambda>m k. markRateLimit cfg k (fst m) (snd m)) marks
                  (markRateLimit cfg km (fst m) (snd m))) = Some ks2"
    "length ks2 = length ks1"
    "\<forall>j < length ks1. inCooldown (ks2 ! j) \<longleftrightarrow> j \<in> snd ` set marks \<or> inCooldown (ks1 ! j)"
    by blast
  show ?case using ks1 ks2 by auto
qed

lemma markRateLimits_frame:
  "apiName (markRateLimits cfg km marks) = apiName km"
  "currentIndex (markRateLimits cfg km marks) = currentIndex km"
  unfolding markRateLimits_def
  by (induction marks arbitrary: km) (simp_all add: markRateLimit_frame)

subsection \<open>getNextKey\<close>

lemma getNextKeyScan_all_cooling:
  assumes "\<forall>j < length ks. inCooldown (ks ! j)" "cur < length ks"
  shows "getNextKeyScan ks cur n = Inr None"
  using assms
proof (induction n arbitrary: cur)
  case 0
  then show ?case by simp
next
  case (Suc n)
  then have "0 < length ks" by auto
  then have "(cur + 1) mod length ks < length ks" by simp
  with Suc show ?case by simp
qed

lemma getNextKeyScan_finds:
  assumes "cur < length ks" "\<not> inCooldown (ks ! ((cur + d) mod length ks))" "d < n"
  shows "\<exists>j < length ks. getNextKeyScan ks cur n = Inr (Some j) \<and> \<not> inCooldown (ks ! j)"
  using assms
proof (induction d arbitrary: cur n)
  case 0
  then obtain n1 where "n = Suc n1" by (cases n) auto
  with 0 show ?case by auto
next
  case (Suc d)
  then obtain n1 where n: "n = Suc n1" "d < n1" by (cases n) auto
  show ?case
  proof (cases "inCooldown (ks ! cur)")
    case False
    with Suc.prems(1) n show ?thesis by auto
  next
    case True
    have "0 < length ks" using Suc.prems(1) by auto
    then have lt: "(cur + 1) mod length ks < length ks" by simp
    have "((cur + 1) mod length ks + d) mod length ks = (cur + Suc d) mod length ks"
      by (simp add: mod_add_left_eq)
    with Suc.prems(2) have "\<not> inCooldown (ks ! (((cur + 1) mod length ks + d) mod length ks))"
      by simp
    from Suc.IH [OF lt this n(2)] True Suc.prems(1) n show ?thesis by simp
  qed
qed

lemma getNextKeyScan_available:
  assumes "cur < length ks" "i < length ks" "\<not> inCooldown (ks ! i)"
  shows "\<exists>j < length ks. getNextKeyScan ks cur (length ks * 2) = Inr (Some j) \<and>
           \<not> inCooldown (ks ! j)"
proof -
  let ?n = "length ks"
  let ?d = "(i + ?n - cur) mod ?n"
  have "(cur + ?d) mod ?n = (cur + (i + ?n - cur)) mod ?n"
    by (simp add: mod_add_right_eq)
  also have "\<dots> = i" using assms(1,2) by simp
  finally have "\<not> inCooldown (ks ! ((cur + ?d) mod ?n))" using assms(3) by simp
  moreover have "?d < ?n * 2" using assms(1)
    by (metis less_nat_zero_code mod_less_divisor mult_2_right not_gr_zero trans_less_add1)
  ultimately show ?thesis using getNextKeyScan_finds [OF assms(1)] by blast
qed

subsection \<open>checkAndResetCooldowns\<close>


lemma sweep_fold:
  assumes "keys km = Some ks" "n \<le> length ks"
  shows "fold (\<lambda>i m. case keys m of
                         None \<Rightarrow> m
                       | Some cur \<Rightarrow> if cooldownExpired (cur ! i) t then resetCooldown m i else m)
               [0..<n] km =
         km\<lparr>keys := Some (map (sweepKey t) (take n ks) @ drop n ks)\<rparr>"
  using assms
proof (induction n)
  case 0
  then show ?case by simp
next
  case (Suc n)
  then have n: "n < length ks" by simp
  let ?L = "map (sweepKey t) (take n ks) @ drop n ks"
  let ?m = "km\<lparr>keys := Some ?L\<rparr>"
  have len: "length ?L = length ks" by simp
  have nth: "?L ! n = ks ! n"
    using n by (simp add: nth_append)
  have upd: "?L[n := x] = map (sweepKey t) (take n ks) @ x # drop (Suc n) ks" for x
    using n by (simp add: list_update_append Cons_nth_drop_Suc [symmetric])
  have tk: "map (sweepKey t) (take (Suc n) ks) @ drop (Suc n) ks =
      map (sweepKey t) (take n ks) @ sweepKey t (ks ! n) # drop (Suc n) ks"
    using n by (simp add: take_Suc_conv_app_nth)
  have step: "(if cooldownExpired (?L ! n) t then resetCooldown ?m n else ?m) =
      km\<lparr>keys := Some (map (sweepKey t) (take (Suc n) ks) @ drop (Suc n) ks)\<rparr>"
  proof (cases "cooldownExpired (ks ! n) t")
    case True
    then have "sweepKey t (ks ! n) = (ks ! n)\<lparr>inCooldown := False, cooldownUntil := None\<rparr>"
      by (simp add: sweepKey_def)
    with True n show ?thesis
      unfolding tk by (simp add: nth resetCooldown_def upd del: list_update_append)
  next
    case False
    then have "sweepKey t (ks ! n) = ks ! n" by (simp add: sweepKey_def)
    with False n show ?thesis
      unfolding tk by (simp add: nth Cons_nth_drop_Suc)
  qed
  from Suc have IH: "fold (\<lambda>i m. case keys m of
                         None \<Rightarrow> m
                       | Some cur \<Rightarrow> if cooldownExpired (cur ! i) t then resetCooldown m i else m)
               [0..<n] km = ?m" by simp
  show ?case using step by (simp add: IH split: if_splits)
qed

lemma checkAndResetCooldowns_eq:
  assumes "keys km = Some ks"
  shows "checkAndResetCooldowns km t = km\<lparr>keys := Some (map (sweepKey t) ks)\<rparr>"
  using sweep_fold [OF assms, of "length ks" t] assms
  by (simp add: checkAndResetCooldowns_def)


lemma getNextKey_keys: "keys (snd (getNextKey km nm)) = keys km"
  by (simp add: getNextKey_def split: option.splits sum.splits)

lemma rotateKey_keys: "rotateKey km = Some (r, km1) \<Longrightarrow> keys km1 = keys km"
  by (auto simp add: rotateKey_def split: option.splits if_splits)

subsection \<open>rotateKey\<close>

text \<open>The loop of \<^verbatim>\<open>rotateKey\<close> returns within \<open>length ks\<close> iterations from any start index in range.\<close>

lemma rotateLoop_returns_aux:
  assumes "start < length ks" "1 \<le> k" "k \<le> length ks"
  shows "rotateLoop ks start ((start + length ks - k) mod length ks) k \<noteq> None"
  using assms
proof (induction k)
  case 0
  then show ?case by simp
next
  case (Suc k)
  let ?n = "length ks"
  have step: "((start + ?n - Suc k) mod ?n + 1) mod ?n = (start + ?n - k) mod ?n"
  proof -
    have "((start + ?n - Suc k) mod ?n + 1) mod ?n = (start + ?n - Suc k + 1) mod ?n"
      by (simp add: mod_Suc_eq)
    also have "start + ?n - Suc k + 1 = start + ?n - k" using Suc.prems by simp
    finally show ?thesis .
  qed
  show ?case
  proof (cases "k = 0")
    case True
    then have "((start + ?n - Suc k) mod ?n + 1) mod ?n = start"
      using step Suc.prems(1) by simp
    then show ?thesis by (simp add: Let_def)
  next
    case False
    with Suc have "rotateLoop ks start ((start + ?n - k) mod ?n) k \<noteq> None" by simp
    then show ?thesis using step by (simp add: Let_def)
  qed
qed

lemma rotateLoop_returns:
  assumes "start < length ks"
  shows "rotateLoop ks start start (length ks) \<noteq> None"
proof -
  from assms have "1 \<le> length ks" by simp
  from rotateLoop_returns_aux [OF assms this] assms show ?thesis by simp
qed

text \<open>The fuel given by \<^verbatim>\<open>rotateKey\<close> is exact: a result does not change with more fuel, and
  the fuel runs out only when the start index is out of range and every key is cooling down,
  in which case no amount of fuel suffices.\<close>

lemma rotateLoop_more_fuel:
  "rotateLoop ks start cur fuel = Some r \<Longrightarrow> rotateLoop ks start cur (fuel + k) = Some r"
  by (induction fuel arbitrary: cur) (auto simp add: Let_def split: if_splits)

lemma rotateLoop_never_returns:
  assumes "length ks \<le> start" "0 < length ks" "\<forall>j < length ks. inCooldown (ks ! j)"
  shows "rotateLoop ks start cur fuel = None"
  using assms
proof (induction fuel arbitrary: cur)
  case 0
  then show ?case by simp
next
  case (Suc fuel)
  have lt: "Suc cur mod length ks < length ks" using Suc.prems(2) by simp
  with Suc.prems(1) have ne: "Suc cur mod length ks \<noteq> start" by linarith
  from lt Suc.prems(3) have "inCooldown (ks ! (Suc cur mod length ks))" by blast
  with ne Suc.IH [OF Suc.prems] show ?case by (simp add: Let_def)
qed

lemma rotateLoop_finds:
  assumes "0 < length ks" "\<not> inCooldown (ks ! ((cur + Suc d) mod length ks))" "d < fuel"
  shows "rotateLoop ks start cur fuel \<noteq> None"
  using assms
proof (induction d arbitrary: cur fuel)
  case 0
  then obtain f where "fuel = Suc f" by (cases fuel) auto
  with 0 show ?case by (simp add: Let_def)
next
  case (Suc d)
  then obtain f where f: "fuel = Suc f" "d < f" by (cases fuel) auto
  have "((cur + 1) mod length ks + Suc d) mod length ks = (cur + 1 + Suc d) mod length ks"
    by (rule mod_add_left_eq)
  also have "cur + 1 + Suc d = cur + Suc (Suc d)" by simp
  finally have "\<not> inCooldown (ks ! (((cur + 1) mod length ks + Suc d) mod length ks))"
    using Suc.prems(2) by simp
  from Suc.IH [OF Suc.prems(1) this f(2)] f show ?case by (simp add: Let_def)
qed

lemma rotateLoop_fuel_exact:
  assumes "0 < length ks"
  shows "rotateLoop ks start start (length ks) = None \<longleftrightarrow>
           length ks \<le> start \<and> (\<forall>j < length ks. inCooldown (ks ! j))"
proof
  assume none: "rotateLoop ks start start (length ks) = None"
  have "\<not> start < length ks" using rotateLoop_returns none by blast
  moreover have "inCooldown (ks ! j)" if j: "j < length ks" for j
  proof (rule ccontr)
    assume free: "\<not> inCooldown (ks ! j)"
    let ?n = "length ks"
    let ?d = "(j + ?n - Suc (start mod ?n)) mod ?n"
    have sm: "start mod ?n < ?n" using assms by simp
    have "(start + Suc ?d) mod ?n = (start mod ?n + Suc ?d) mod ?n"
      by (rule mod_add_left_eq [symmetric])
    also have "start mod ?n + Suc ?d = Suc (start mod ?n) + ?d" by simp
    also have "(Suc (start mod ?n) + ?d) mod ?n =
        (Suc (start mod ?n) + (j + ?n - Suc (start mod ?n))) mod ?n"
      by (rule mod_add_right_eq)
    also have "Suc (start mod ?n) + (j + ?n - Suc (start mod ?n)) = j + ?n"
      using sm by simp
    also have "(j + ?n) mod ?n = j" using j by simp
    finally have "\<not> inCooldown (ks ! ((start + Suc ?d) mod ?n))" using free by simp
    moreover have "?d < ?n" using assms by simp
    ultimately have "rotateLoop ks start start ?n \<noteq> None"
      using rotateLoop_finds [OF assms] by blast
    with none show False by simp
  qed
  ultimately show "length ks \<le> start \<and> (\<forall>j < length ks. inCooldown (ks ! j))" by auto
next
  assume "length ks \<le> start \<and> (\<forall>j < length ks. inCooldown (ks ! j))"
  with assms show "rotateLoop ks start start (length ks) = None"
    by (simp add: rotateLoop_never_returns)
qed


subsection \<open>Exhaustion and recovery of a key pool\<close>

text \<open>
  C7, as stated: expired cooldowns are cleared on every acquire and rotate, so that once a
  key's cooldown deadline has passed the next \<^verbatim>\<open>getNextKey\<close> returns a key. It does not:
  \<^verbatim>\<open>getNextKey\<close> reads no clock and clears nothing. A pool of one key marked at time 1000 has
  the deadline 3601000, and \<^verbatim>\<open>getNextKey\<close> returns none whenever it is called; the sweep is
  made by \<^verbatim>\<open>hasAvailableKey\<close>, which at time 3601000 reports the key available.
\<close>

theorem getNextKey_does_not_sweep_counterexample:
  "keys (markRateLimit DEFAULT_RESILIENCE_CONFIG (newKeyManager Finnhub (Some [''k1''])) 1000 0) =
     Some [\<lparr>key = ''k1'', index = 0, usageCount = 0, lastUsed = 0, inCooldown = True,
            cooldownUntil = Some 3601000, lastRateLimitError = Some 1000\<rparr>] \<and>
   fst (getNextKey (markRateLimit DEFAULT_RESILIENCE_CONFIG
       (newKeyManager Finnhub (Some [''k1''])) 1000 0) Finnhub) = Inr None \<and>
   fst (hasAvailableKey (markRateLimit DEFAULT_RESILIENCE_CONFIG
       (newKeyManager Finnhub (Some [''k1''])) 1000 0) 3601000)"
  by (simp add: markRateLimit_def newKeyManager_def freshKey_def DEFAULT_RESILIENCE_CONFIG_def
      getNextKey_def keysGet_def currentIndexGet_def hasAvailableKey_def checkAndResetCooldowns_def
      cooldownExpired_def resetCooldown_def getAvailableKeyCount_def numeral_2_eq_2)

text \<open>
  C7, amended: for every key pool of size \<open>n\<close> whose current index is in range, after
  rate-limit marks on all \<open>n\<close> keys \<^verbatim>\<open>getNextKey\<close> returns none; expired cooldowns are cleared
  by \<^verbatim>\<open>hasAvailableKey\<close> (through \<^verbatim>\<open>checkAndResetCooldowns\<close>), not by \<^verbatim>\<open>getNextKey\<close> or
  \<^verbatim>\<open>rotateKey\<close>, which leave the keys as they are; once a key's (non-zero) cooldown deadline
  has passed, \<^verbatim>\<open>hasAvailableKey\<close> returns true and the \<^verbatim>\<open>getNextKey\<close> that follows it
  returns a key that is not cooling down.
\<close>

theorem keypool_exhaustion_and_recovery:
  assumes "keys km = Some ks" "currentIndex km < length ks \<or> ks = []"
  shows "((\<forall>i < length ks. i \<in> snd ` set marks) \<longrightarrow>
            fst (getNextKey (markRateLimits cfg km marks) (apiName km)) = Inr None) \<and>
         ((\<exists>i < length ks. cooldownExpired (ks ! i) t) \<longrightarrow>
            fst (hasAvailableKey km t) \<and>
            (\<exists>k. fst (getNextKey (snd (hasAvailableKey km t)) (apiName km)) = Inr (Some k) \<and>
                 \<not> inCooldown k)) \<and>
         keys (snd (getNextKey km (apiName km))) = keys km \<and>
         (\<forall>r km1. rotateKey km = Some (r, km1) \<longrightarrow> keys km1 = keys km)"
proof (intro conjI impI allI)
  assume all: "\<forall>i < length ks. i \<in> snd ` set marks"
  let ?km = "markRateLimits cfg km marks"
  from markRateLimits_keys [OF assms(1), of cfg marks] all
  obtain ks1 where ks1: "keys ?km = Some ks1" "length ks1 = length ks"
    "\<forall>j < length ks1. inCooldown (ks1 ! j)" by auto
  show "fst (getNextKey ?km (apiName km)) = Inr None"
  proof (cases "ks = []")
    case True
    with ks1 show ?thesis
      by (simp add: getNextKey_def keysGet_def markRateLimits_frame)
  next
    case False
    with assms(2) ks1(2) have "currentIndex ?km < length ks1"
      by (simp add: markRateLimits_frame)
    from getNextKeyScan_all_cooling [OF ks1(3) this] ks1(1,2) False show ?thesis
      by (simp add: getNextKey_def keysGet_def currentIndexGet_def markRateLimits_frame)
  qed
next
  assume "\<exists>i < length ks. cooldownExpired (ks ! i) t"
  then obtain i where i: "i < length ks" "cooldownExpired (ks ! i) t" by blast
  let ?ks = "map (sweepKey t) ks"
  have km1: "snd (hasAvailableKey km t) = km\<lparr>keys := Some ?ks\<rparr>"
    by (simp add: hasAvailableKey_def Let_def checkAndResetCooldowns_eq [OF assms(1)])
  have free: "\<not> inCooldown (?ks ! i)" using i by (simp add: sweepKey_def)
  have mem: "?ks ! i \<in> set ?ks" using i by (metis length_map nth_mem)
  show "fst (hasAvailableKey km t)"
    using free mem
    by (auto simp add: hasAvailableKey_def Let_def checkAndResetCooldowns_eq [OF assms(1)]
        getAvailableKeyCount_def filter_empty_conv simp del: nth_map)
  from i assms(2) have cur: "currentIndex km < length ?ks" by auto
  from i have i': "i < length ?ks" by simp
  from getNextKeyScan_available [OF cur i' free]
  obtain j where j: "j < length ?ks" "getNextKeyScan ?ks (currentIndex km) (length ?ks * 2) = Inr (Some j)"
    "\<not> inCooldown (?ks ! j)" by blast
  have "fst (getNextKey (km\<lparr>keys := Some ?ks\<rparr>) (apiName km)) = Inr (Some (?ks ! j))"
    using j(2) i(1) by (auto simp add: getNextKey_def keysGet_def currentIndexGet_def)
  with j(3) km1
  show "\<exists>k. fst (getNextKey (snd (hasAvailableKey km t)) (apiName km)) = Inr (Some k) \<and>
             \<not> inCooldown k"
    by auto
next
  show "keys (snd (getNextKey km (apiName km))) = keys km" by (rule getNextKey_keys)
next
  fix r km1 assume "rotateKey km = Some (r, km1)"
  then show "keys km1 = keys km" by (rule rotateKey_keys)
qed

lemma newKeyManager_two:
  "newKeyManager nm (Some [a, b]) =
     \<lparr>apiName = nm, keys = Some [freshKey 0 a, freshKey 1 b], currentIndex = 0\<rparr>"
  by (simp add: newKeyManager_def upt_rec)

theorem keypool_exhaustion_and_recovery_witness:
  "keys (newKeyManager Finnhub (Some [''a'', ''b''])) =
     Some [freshKey 0 ''a'', freshKey 1 ''b''] \<and>
   currentIndex (newKeyManager Finnhub (Some [''a'', ''b''])) < 2 \<and>
   fst (getNextKey (markRateLimits DEFAULT_RESILIENCE_CONFIG
          (newKeyManager Finnhub (Some [''a'', ''b''])) [(1000, 0), (1001, 1)]) Finnhub) =
     Inr None \<and>
   fst (hasAvailableKey (markRateLimits DEFAULT_RESILIENCE_CONFIG
          (newKeyManager Finnhub (Some [''a'', ''b''])) [(1000, 0), (1001, 1)]) 3601000)"
proof -
  let ?km = "newKeyManager Finnhub (Some [''a'', ''b''])"
  let ?ks = "[freshKey 0 ''a'', freshKey 1 ''b'']"
  let ?marks = "[(1000, 0), (1001, 1)] :: (int \<times> nat) list"
  let ?km1 = "markRateLimits DEFAULT_RESILIENCE_CONFIG ?km ?marks"
  let ?ks1 = "[(freshKey 0 ''a'')\<lparr>inCooldown := True, cooldownUntil := Some 3601000,
                  lastRateLimitError := Some 1000\<rparr>,
               (freshKey 1 ''b'')\<lparr>inCooldown := True, cooldownUntil := Some 3601001,
                  lastRateLimitError := Some 1001\<rparr>]"
  have k: "keys ?km = Some ?ks" and c: "currentIndex ?km < length ?ks \<or> ?ks = []"
    and n: "apiName ?km = Finnhub"
    by (simp_all add: newKeyManager_two)
  have cov: "\<forall>i < length ?ks. i \<in> snd ` set ?marks"
    by (auto simp add: less_Suc_eq numeral_2_eq_2)
  from keypool_exhaustion_and_recovery [OF k c, of ?marks DEFAULT_RESILIENCE_CONFIG] cov n
  have none: "fst (getNextKey ?km1 Finnhub) = Inr None" by simp
  have k1: "keys ?km1 = Some ?ks1" and c1: "currentIndex ?km1 < length ?ks1 \<or> ?ks1 = []"
    by (simp_all add: markRateLimits_def markRateLimit_def newKeyManager_two
        DEFAULT_RESILIENCE_CONFIG_def)
  have "\<exists>i < length ?ks1. cooldownExpired (?ks1 ! i) 3601000"
    by (rule exI [of _ 0]) (simp add: cooldownExpired_def)
  with keypool_exhaustion_and_recovery [OF k1 c1, of "[]" DEFAULT_RESILIENCE_CONFIG 3601000]
  have "fst (hasAvailableKey ?km1 3601000)" by blast
  with k c none show ?thesis by simp
qed

section \<open>Properties of the dispatcher\<close>

subsection \<open>Every dispatch returns\<close>



lemma getNextKey_other:
  assumes "getNextKey km nm = (r, km1)" "\<And>k. r \<noteq> Inr (Some k)"
  shows "km1 = km"
  using assms by (auto simp add: getNextKey_def split: option.splits if_splits sum.splits)







subsection \<open>The branches of the two loops\<close>






lemma getNextKeyScan_Inl: "getNextKeyScan ks cur n = Inl e \<Longrightarrow> e = undefinedTypeError"
  by (induction n arbitrary: cur) (auto split: if_splits)

lemma getNextKey_Inl: "getNextKey km nm = (Inl e, km1) \<Longrightarrow> e = undefinedTypeError"
  by (auto simp add: getNextKey_def split: option.splits if_splits sum.splits
      dest: getNextKeyScan_Inl)

lemma keyRotationLoop_Suc_cases [consumes 1, case_names typeError noKey resolved rejected exhausted rotated]:
  assumes "keyRotationLoop cfg executor src (Suc n) lastError km w = Some res"
  obtains
    km1 where "getNextKey km src = (Inl undefinedTypeError, km1)"
      "res = (Inl undefinedTypeError, km1, w)"
  | km1 where "getNextKey km src = (Inr None, km1)"
      "keyRotationLoop cfg executor src 0 lastError km1 w = Some res"
  | keyInfo km1 v w1 where "getNextKey km src = (Inr (Some keyInfo), km1)"
      "callExecutor executor src w = (Inr v, w1)"
      "res = (Inr v, recordUsage km1 (now w1) (index keyInfo), w1)"
  | keyInfo km1 err w1 where "getNextKey km src = (Inr (Some keyInfo), km1)"
      "callExecutor executor src w = (Inl err, w1)" "\<not> isRateLimitError err"
      "res = (Inl err, km1, w1)"
  | keyInfo km1 err w1 km2 where "getNextKey km src = (Inr (Some keyInfo), km1)"
      "callExecutor executor src w = (Inl err, w1)" "isRateLimitError err"
      "rotateKey (markRateLimit cfg km1 (now w1) (index keyInfo)) = Some (False, km2)"
      "keyRotationLoop cfg executor src 0 (Some err) km2 w1 = Some res"
  | keyInfo km1 err w1 km2 where "getNextKey km src = (Inr (Some keyInfo), km1)"
      "callExecutor executor src w = (Inl err, w1)" "isRateLimitError err"
      "rotateKey (markRateLimit cfg km1 (now w1) (index keyInfo)) = Some (True, km2)"
      "keyRotationLoop cfg executor src n (Some err) km2 w1 = Some res"
proof -
  obtain r km1 where g: "getNextKey km src = (r, km1)" by (cases "getNextKey km src") auto
  show thesis
  proof (cases r)
    case (Inl e)
    with g getNextKey_Inl have "e = undefinedTypeError" by blast
    with g Inl assms that(1) show thesis by simp
  next
    case (Inr ko)
    show thesis
    proof (cases ko)
      case None
      with g Inr assms that(2) show thesis by simp
    next
      case (Some keyInfo)
      with g Inr have g': "getNextKey km src = (Inr (Some keyInfo), km1)" by simp
      obtain cr w1 where c: "callExecutor executor src w = (cr, w1)"
        by (cases "callExecutor executor src w") auto
      show thesis
      proof (cases cr)
        case (Inr v)
        with g' c assms that(3) show thesis by simp
      next
        case (Inl err)
        show thesis
        proof (cases "isRateLimitError err")
          case False
          with g' c Inl assms that(4) show thesis by simp
        next
          case True
          obtain ro where ro: "rotateKey (markRateLimit cfg km1 (now w1) (index keyInfo)) = ro"
            by simp
          show thesis
          proof (cases ro)
            case None
            with ro g' c Inl True assms show thesis by simp
          next
            case (Some p)
            obtain rotated km2 where p: "p = (rotated, km2)" by (cases p) auto
            show thesis
            proof (cases rotated)
              case False
              with ro Some p g' c Inl True assms show thesis
                by (intro that(5) [of keyInfo km1 err w1 km2]) simp_all
            next
              case rt: True
              with ro Some p g' c Inl True assms show thesis
                by (intro that(6) [of keyInfo km1 err w1 km2]) simp_all
            qed
          qed
        qed
      qed
    qed
  qed
qed

subsection \<open>What a run contacts, changes and records\<close>

lemma callExecutor_contacted:
  "callExecutor executor src w = (r, w1) \<Longrightarrow> contacted w1 = contacted w @ [src]"
  by (auto simp add: callExecutor_def Let_def)

lemma keyRotationLoop_contacted:
  assumes "keyRotationLoop cfg executor src n lastError km w = Some (r, km', w')"
  shows "\<exists>k. contacted w' = contacted w @ replicate k src"
  using assms
proof (induction n arbitrary: lastError km w)
  case 0
  then have "contacted w' = contacted w @ replicate 0 src" by auto
  then show ?case by blast
next
  case (Suc n)
  from Suc.prems show ?case
  proof (cases rule: keyRotationLoop_Suc_cases)
    case (typeError km1)
    then have "contacted w' = contacted w @ replicate 0 src" by auto
    then show ?thesis by blast
  next
    case (noKey km1)
    then have "contacted w' = contacted w @ replicate 0 src" by auto
    then show ?thesis by blast
  next
    case (resolved keyInfo km1 v w1)
    then have "contacted w' = contacted w @ replicate 1 src"
      by (auto dest: callExecutor_contacted)
    then show ?thesis by blast
  next
    case (rejected keyInfo km1 err w1)
    then have "contacted w' = contacted w @ replicate 1 src"
      by (auto dest: callExecutor_contacted)
    then show ?thesis by blast
  next
    case (exhausted keyInfo km1 err w1 km2)
    then have "contacted w' = contacted w @ replicate 1 src"
      by (auto dest: callExecutor_contacted)
    then show ?thesis by blast
  next
    case (rotated keyInfo km1 err w1 km2)
    from Suc.IH [OF rotated(5)] obtain k where "contacted w' = contacted w1 @ replicate k src"
      by blast
    with callExecutor_contacted [OF rotated(2)]
    have "contacted w' = contacted w @ replicate (Suc k) src"
      by (simp add: replicate_app_Cons_same)
    then show ?thesis by blast
  qed
qed




lemma executeWithKeyRotation_contacted:
  assumes "executeWithKeyRotation executor src c w = Some (r, c2, w2)"
  shows "\<exists>k. contacted w2 = contacted w @ replicate k src"
proof (cases "keyManagers c src")
  case None
  with assms have "contacted w2 = contacted w @ replicate 1 src"
    by (auto simp add: executeWithKeyRotation_def split: prod.splits dest: callExecutor_contacted)
  then show ?thesis by blast
next
  case (Some km)
  with assms obtain km1 where
    "keyRotationLoop (config c) executor src (getTotalKeyCount km) None km w = Some (r, km1, w2)"
    by (auto simp add: executeWithKeyRotation_def split: option.splits prod.splits)
  then show ?thesis by (rule keyRotationLoop_contacted)
qed









subsection \<open>Concrete candidate lists and runs\<close>

lemma us_quote_candidates:
  "getSourcesForTool (\<lambda>t. None) ''get_stock_quote'' (Some ''AAPL'') =
     [Finnhub, Twelvedata, Tiingo, Alphavantage]"
  by (simp add: getSourcesForTool_def priorityEntry_def OPTIMAL_SOURCE_MAP_def
      getMarketFromSymbol_def endsWith_def toUpperCase_def upperChar_def
      matchesPrefixSixDigits_def matchesOneToFiveLetters_def isDigit_def isUpperLetter_def)


lemma getNextKeyScan_hit:
  "0 < n \<Longrightarrow> cur < length ks \<Longrightarrow> \<not> inCooldown (ks ! cur) \<Longrightarrow>
     getNextKeyScan ks cur n = Inr (Some cur)"
  by (cases n) simp_all

lemma checkAndResetCooldowns_none_cooling:
  assumes "keys km = Some ks" "\<forall>k \<in> set ks. \<not> inCooldown k"
  shows "checkAndResetCooldowns km t = km"
proof -
  from assms(2) have "map (sweepKey t) ks = ks"
    by (simp add: map_idI sweepKey_def cooldownExpired_def)
  with checkAndResetCooldowns_eq [OF assms(1), of t] assms(1) show ?thesis by simp
qed

subsection \<open>Failover policy\<close>




subsection \<open>Key rotation inside one attempt\<close>

text \<open>
  C4, as stated: with two Finnhub keys, a rate-limit error under key 0 and a success under
  key 1, the result logs two attempts, with key index 0 and then 1. It does not: the
  dispatcher records one attempt for each provider it tries, whatever the number of keys used
  inside \<^verbatim>\<open>executeWithKeyRotation\<close>, and takes its key index before the rotation starts. The run
  logs one attempt, successful, with key index 0, while the executor is called twice, key 0 is
  left cooling down and key 1 is current.
\<close>

theorem rotation_logs_one_attempt_counterexample:
  "map_option (\<lambda>r. (map (\<lambda>a. (source a, keyIndex a, success a)) (fst (snd r)),
                     contacted (snd (snd (snd r))),
                     map_option (\<lambda>km. (map_option (map inCooldown) (keys km), currentIndex km))
                       (keyManagers (fst (snd (snd r))) Finnhub)))
     (executeWithCascadingFailover (\<lambda>t. None)
        (serverClient (\<lambda>s. if s = Finnhub then Some [''bad1'', ''good2''] else None))
        startWorld ''get_stock_quote'' rateLimitedOnce (Some ''AAPL'')) =
   Some ([(Finnhub, 0, True)], [Finnhub, Finnhub], Some (Some [True, False], 1))"
  by code_simp

text \<open>
  C4, amended: for a dispatch whose first candidate has a client and a pool of two keys,
  neither cooling down, where the executor's first call on it raises a rate-limit error and
  its second call succeeds, the returned result logs exactly one attempt, for that provider,
  with key index 0 (the index current when the attempt began) and marked successful; the
  executor was called twice on that provider, which is the winning one; and key 0 is left in
  cooldown, with key 1 current and its usage counted.
\<close>

theorem rate_limited_key_is_rotated_within_one_attempt:
  assumes cands: "getSourcesForTool cp toolName symbol = p # rest"
    and client: "hasClient c p" "keyManagers c p = Some km"
    and pool: "apiName km = p" "keys km = Some [k0, k1]" "currentIndex km = 0"
      "\<not> inCooldown k0" "\<not> inCooldown k1" "index k0 = 0" "index k1 = 1"
    and first: "executor (contacted w) p = (Inl e, d0)" "isRateLimitError e"
    and second: "executor (contacted w @ [p]) p = (Inr v, d1)"
  shows "\<exists>att c' w' km' k0' k1'.
           executeWithCascadingFailover cp c w toolName executor symbol =
             Some (Returned \<lparr>data = v, winningSource = p, attempts = [att],
                              totalDurationMs = int d0 + int d1\<rparr>, [att], c', w') \<and>
           source att = p \<and> keyIndex att = 0 \<and> success att \<and>
           contacted w' = contacted w @ [p, p] \<and>
           keyManagers c' p = Some km' \<and> keys km' = Some [k0', k1'] \<and> currentIndex km' = 1 \<and>
           inCooldown k0' \<and>
           cooldownUntil k0' = Some (now w + int d0 + keyRotationResetWindowMs (config c)) \<and>
           \<not> inCooldown k1' \<and> usageCount k1' = usageCount k1 + 1"
proof -
  let ?cfg = "config c"
  let ?w1 = "w\<lparr>now := now w + int d0, contacted := contacted w @ [p]\<rparr>"
  let ?w2 = "w\<lparr>now := now w + int d0 + int d1, contacted := contacted w @ [p, p]\<rparr>"
  let ?k0 = "k0\<lparr>inCooldown := True,
                 cooldownUntil := Some (now w + int d0 + keyRotationResetWindowMs ?cfg),
                 lastRateLimitError := Some (now w + int d0)\<rparr>"
  let ?k1 = "k1\<lparr>usageCount := usageCount k1 + 1, lastUsed := now w + int d0 + int d1\<rparr>"
  let ?km' = "km\<lparr>keys := Some [?k0, ?k1], currentIndex := Suc 0\<rparr>"
  have sweep: "checkAndResetCooldowns km (now w) = km"
    using pool by (intro checkAndResetCooldowns_none_cooling [of _ "[k0, k1]"]) simp_all
  have "(keyManagers c)(p := Some km) = keyManagers c" using client(2) by auto
  then have avail: "isSourceAvailable c p (now w) = (True, c)"
    using client pool
    by (simp add: isSourceAvailable_def hasAvailableKey_def sweep getAvailableKeyCount_def)
  have g0: "getNextKey km p = (Inr (Some k0), km)"
    using pool by (simp add: getNextKey_def keysGet_def currentIndexGet_def getNextKeyScan_hit)
  have c0: "callExecutor executor p w = (Inl e, ?w1)"
    using first by (simp add: callExecutor_def)
  let ?km1 = "km\<lparr>keys := Some [?k0, k1]\<rparr>"
  have m0: "markRateLimit ?cfg km (now w + int d0) (index k0) = ?km1"
    using pool by (simp add: markRateLimit_def)
  have r0: "rotateKey ?km1 = Some (True, ?km1\<lparr>currentIndex := Suc 0\<rparr>)"
    using pool by (simp add: rotateKey_def Let_def numeral_2_eq_2)
  have g1: "getNextKey (?km1\<lparr>currentIndex := Suc 0\<rparr>) p =
      (Inr (Some k1), ?km1\<lparr>currentIndex := Suc 0\<rparr>)"
    using pool by (simp add: getNextKey_def keysGet_def currentIndexGet_def getNextKeyScan_hit)
  have c1: "callExecutor executor p ?w1 = (Inr v, ?w2)"
    using second by (simp add: callExecutor_def)
  have u1: "recordUsage (?km1\<lparr>currentIndex := Suc 0\<rparr>) (now w + int d0 + int d1) (index k1) = ?km'"
    using pool by (simp add: recordUsage_def)
  have loop: "keyRotationLoop ?cfg executor p (Suc (Suc 0)) None km w = Some (Inr v, ?km', ?w2)"
    using first(2) by (simp add: g0 c0 m0 r0 g1 c1 u1)
  have total: "getTotalKeyCount km = Suc (Suc 0)" using pool by (simp add: getTotalKeyCount_def)
  let ?c' = "c\<lparr>keyManagers := (keyManagers c)(p := Some ?km')\<rparr>"
  have ewkr: "executeWithKeyRotation executor p c w = Some (Inr v, ?c', ?w2)"
    using client(2)
    by (simp add: executeWithKeyRotation_def total loop del: keyRotationLoop.simps)
  let ?att = "\<lparr>source = p, keyIndex = 0, startTime = now w, endTime = now ?w2,
                durationMs = now ?w2 - now w, success = True, error = None\<rparr>"
  have "executeWithCascadingFailover cp c w toolName executor symbol =
      Some (Returned \<lparr>data = v, winningSource = p, attempts = [?att],
                       totalDurationMs = int d0 + int d1\<rparr>, [?att], ?c', ?w2)"
    using client(2) pool
    by (simp add: executeWithCascadingFailover_def cands avail ewkr getCurrentKeyIndex_def
        currentIndexGet_def Let_def del: keyRotationLoop.simps)
  then show ?thesis
    by (intro exI [of _ ?att] exI [of _ ?c'] exI [of _ ?w2] exI [of _ ?km'] exI [of _ ?k0]
        exI [of _ ?k1]) (simp add: pool)
qed

theorem rate_limited_key_is_rotated_within_one_attempt_witness:
  "getSourcesForTool (\<lambda>t. None) ''get_stock_quote'' (Some ''AAPL'') =
     Finnhub # [Twelvedata, Tiingo, Alphavantage] \<and>
   hasClient (serverClient (\<lambda>s. if s = Finnhub then Some [''bad1'', ''good2''] else None)) Finnhub \<and>
   keyManagers (serverClient (\<lambda>s. if s = Finnhub then Some [''bad1'', ''good2''] else None)) Finnhub =
     Some \<lparr>apiName = Finnhub, keys = Some [freshKey 0 ''bad1'', freshKey 1 ''good2''],
           currentIndex = 0\<rparr> \<and>
   rateLimitedOnce (contacted startWorld) Finnhub =
     (Inl (JsError ''HTTP 429: Too Many Requests''), 5) \<and>
   isRateLimitError (JsError ''HTTP 429: Too Many Requests'') \<and>
   rateLimitedOnce (contacted startWorld @ [Finnhub]) Finnhub = (Inr ''quote'', 7) \<and>
   (\<exists>att c' w' km' k0' k1'.
      executeWithCascadingFailover (\<lambda>t. None)
        (serverClient (\<lambda>s. if s = Finnhub then Some [''bad1'', ''good2''] else None))
        startWorld ''get_stock_quote'' rateLimitedOnce (Some ''AAPL'') =
        Some (Returned \<lparr>data = ''quote'', winningSource = Finnhub, attempts = [att],
                         totalDurationMs = 12\<rparr>, [att], c', w') \<and>
      source att = Finnhub \<and> keyIndex att = 0 \<and> success att \<and>
      contacted w' = [Finnhub, Finnhub] \<and>
      keyManagers c' Finnhub = Some km' \<and> keys km' = Some [k0', k1'] \<and>
      currentIndex km' = 1 \<and> inCooldown k0' \<and> cooldownUntil k0' = Some 3601005 \<and>
      \<not> inCooldown k1' \<and> usageCount k1' = 1)"
proof -
  let ?c = "serverClient (\<lambda>s. if s = Finnhub then Some [''bad1'', ''good2''] else None)"
  let ?km = "\<lparr>apiName = Finnhub, keys = Some [freshKey 0 ''bad1'', freshKey 1 ''good2''],
              currentIndex = 0\<rparr>"
  have cands: "getSourcesForTool (\<lambda>t. None) ''get_stock_quote'' (Some ''AAPL'') =
      Finnhub # [Twelvedata, Tiingo, Alphavantage]"
    by (simp add: us_quote_candidates)
  have cl: "hasClient ?c Finnhub" "keyManagers ?c Finnhub = Some ?km"
    by (simp_all add: serverClient_def newResilientApiClient_def newKeyManager_two)
  have cfg: "keyRotationResetWindowMs (config ?c) = 3600000"
    by (simp add: serverClient_def newResilientApiClient_def DEFAULT_RESILIENCE_CONFIG_def)
  have pool: "apiName ?km = Finnhub" "keys ?km = Some [freshKey 0 ''bad1'', freshKey 1 ''good2'']"
    "currentIndex ?km = 0" "\<not> inCooldown (freshKey 0 ''bad1'')"
    "\<not> inCooldown (freshKey 1 ''good2'')" "index (freshKey 0 ''bad1'') = 0"
    "index (freshKey 1 ''good2'') = 1"
    by (simp_all add: freshKey_def)
  have first: "rateLimitedOnce (contacted startWorld) Finnhub =
      (Inl (JsError ''HTTP 429: Too Many Requests''), 5)"
    by (simp add: rateLimitedOnce_def startWorld_def)
  have rl: "isRateLimitError (JsError ''HTTP 429: Too Many Requests'')"
    by (simp add: isRateLimitError_def toLowerCase_def lowerChar_def)
  have second: "rateLimitedOnce (contacted startWorld @ [Finnhub]) Finnhub = (Inr ''quote'', 7)"
    by (simp add: rateLimitedOnce_def startWorld_def)
  from rate_limited_key_is_rotated_within_one_attempt
    [where executor = rateLimitedOnce and w = startWorld and c = ?c and p = Finnhub,
      OF cands cl pool first rl second]
  have "\<exists>att c' w' km' k0' k1'.
      executeWithCascadingFailover (\<lambda>t. None) ?c startWorld ''get_stock_quote''
        rateLimitedOnce (Some ''AAPL'') =
        Some (Returned \<lparr>data = ''quote'', winningSource = Finnhub, attempts = [att],
                         totalDurationMs = 12\<rparr>, [att], c', w') \<and>
      source att = Finnhub \<and> keyIndex att = 0 \<and> success att \<and>
      contacted w' = [Finnhub, Finnhub] \<and>
      keyManagers c' Finnhub = Some km' \<and> keys km' = Some [k0', k1'] \<and>
      currentIndex km' = 1 \<and> inCooldown k0' \<and> cooldownUntil k0' = Some 3601005 \<and>
      \<not> inCooldown k1' \<and> usageCount k1' = 1"
    by (simp add: cfg startWorld_def freshKey_def)
  with cands cl first rl second show ?thesis by simp
qed

subsection \<open>The dispatcher and the circuit breakers\<close>




subsection \<open>The attempts and the candidate list\<close>






section \<open>Properties of the backoff delay\<close>

lemma overflowBound_gt_1: "1 < overflowBound"
  unfolding overflowBound_def by (rule one_less_power) simp_all

lemma overflow_Fin: "\<bar>x\<bar> < overflowBound \<Longrightarrow> overflow x = Fin x"
  by (auto simp add: overflow_def)

lemma pow2_below_bound: "n < 1024 \<Longrightarrow> (2::real) ^ n < overflowBound"
  unfolding overflowBound_def by (rule power_strict_increasing) simp_all

lemma pow2_1024_overflows: "mathPow2 1024 = PosInf"
  unfolding mathPow2_def overflow_def overflowBound_def by (simp only: order_refl if_True)

lemma NaN_absorbs:
  "jsMul NaN b = NaN" "jsMul a NaN = NaN" "jsAdd NaN b = NaN" "jsAdd a NaN = NaN"
  "mathMin NaN b = NaN" "mathMin a NaN = NaN" "mathMax a NaN = NaN"
  by (cases a; simp add: jsMul_def jsAdd_def mathMin_def mathMax_def)+

text \<open>
  While nothing overflows, the delay is a non-negative integer that does not exceed the
  maximum: for an attempt number below 1024, a non-negative initial delay whose product with
  \<open>2 ^ attempt\<close> and 1.25 stays below the overflow bound, a non-negative finite maximum and a
  draw in \<open>[0, 1]\<close>.
\<close>

lemma calculateBackoffDelay_finite_range:
  fixes i m r :: real
  assumes "0 \<le> i" "0 \<le> m" "0 \<le> r" "r \<le> 1"
    and n: "n < 1024" and b: "i * 2 ^ n * 1.25 < overflowBound"
  shows "nonNegIntegerUpTo (Fin m) (calculateBackoffDelay n (Fin i) (Fin m) (Fin r))"
proof -
  define base where "base = i * 2 ^ n"
  define jit where "jit = (r - 0.5) * 2 * (base * 0.25)"
  have p: "(2::real) ^ n < overflowBound" using n by (rule pow2_below_bound)
  have base0: "0 \<le> base" using assms(1) by (simp add: base_def)
  from b have b': "base * (5 / 4) < overflowBound" by (simp add: base_def)
  have base1: "base < overflowBound" using b' base0 by linarith
  have pw: "mathPow2 n = Fin (2 ^ n)" using p by (simp add: mathPow2_def overflow_Fin)
  have bd: "jsMul (Fin i) (mathPow2 n) = Fin base"
    using base0 base1 by (simp add: pw jsMul_def overflow_Fin base_def)
  have jr: "jsMul (Fin base) (Fin 0.25) = Fin (base * 0.25)"
    using base0 base1 by (simp add: jsMul_def overflow_Fin)
  have sub: "jsSub (Fin r) (Fin 0.5) = Fin (r - 0.5)"
    using assms(3,4) overflowBound_gt_1 by (simp add: jsSub_def jsAdd_def overflow_Fin)
  have two: "jsMul (Fin (r - 0.5)) (Fin 2) = Fin ((r - 0.5) * 2)"
    using assms(3,4) overflowBound_gt_1 by (simp add: jsMul_def overflow_Fin abs_less_iff)
  have jl: "- (base * (1 / 4)) \<le> jit" and ju: "jit \<le> base * (1 / 4)"
  proof -
    have f: "- 1 \<le> (r - 1 / 2) * 2" "(r - 1 / 2) * 2 \<le> 1" using assms(3,4) by simp_all
    have q: "0 \<le> base * (1 / 4)" using base0 by simp
    from f(1) q have "- 1 * (base * (1 / 4)) \<le> (r - 1 / 2) * 2 * (base * (1 / 4))"
      by (rule mult_right_mono)
    then show "- (base * (1 / 4)) \<le> jit" by (simp add: jit_def)
    from f(2) q have "(r - 1 / 2) * 2 * (base * (1 / 4)) \<le> 1 * (base * (1 / 4))"
      by (rule mult_right_mono)
    then show "jit \<le> base * (1 / 4)" by (simp add: jit_def)
  qed
  have "\<bar>jit\<bar> < overflowBound" using jl ju base0 base1 by (simp add: abs_less_iff)
  then have jt: "jsMul (Fin ((r - 0.5) * 2)) (Fin (base * 0.25)) = Fin jit"
    by (simp add: jsMul_def overflow_Fin jit_def)
  have sum0: "0 \<le> base + jit" using jl base0 by linarith
  have sum1: "base + jit < overflowBound" using ju b' by linarith
  have ad: "jsAdd (Fin base) (Fin jit) = Fin (base + jit)"
    using sum0 sum1 by (simp add: jsAdd_def overflow_Fin)
  have res: "calculateBackoffDelay n (Fin i) (Fin m) (Fin r) =
      mathMax (Fin 0) (mathFloor (mathMin (Fin (base + jit)) (Fin m)))"
    by (simp only: calculateBackoffDelay_def Let_def bd jr sub two jt ad)
  have mn: "0 \<le> min (base + jit) m" using sum0 assms(2) by simp
  then have fl0: "0 \<le> \<lfloor>min (base + jit) m\<rfloor>" by simp
  have fl1: "of_int \<lfloor>min (base + jit) m\<rfloor> \<le> m"
    by (meson min.cobounded2 of_int_floor_le order_trans)
  from fl0 have mx: "max 0 (of_int \<lfloor>min (base + jit) m\<rfloor>) = (of_int \<lfloor>min (base + jit) m\<rfloor> :: real)"
    by simp
  have "calculateBackoffDelay n (Fin i) (Fin m) (Fin r) = Fin (of_int \<lfloor>min (base + jit) m\<rfloor>)"
    unfolding res by (simp add: mathMin_def mathMax_def mx)
  then show ?thesis
    using fl0 fl1 by (simp add: nonNegIntegerUpTo_def)
qed

text \<open>
  C10: for every attempt number, every initial delay and maximum delay that are not negative
  and every draw in \<open>[0, 1]\<close>, \<^verbatim>\<open>calculateBackoffDelay\<close> should return a non-negative integer
  not above the maximum delay. The source caps the delay with \<^verbatim>\<open>Math.min\<close> and \<^verbatim>\<open>Math.max\<close>, which
  both pass \<^verbatim>\<open>NaN\<close> on, and \<^verbatim>\<open>Math.pow(2, 1024)\<close> is \<^verbatim>\<open>Infinity\<close>: with an initial delay of 0 the
  base delay is \<^verbatim>\<open>0 * Infinity\<close>, and with an initial delay of 1000 and a draw of 0.25 the sum
  of base delay and jitter is \<^verbatim>\<open>Infinity - Infinity\<close>. In both cases the function returns
  \<^verbatim>\<open>NaN\<close>, which is not a number at all.
\<close>

theorem calculateBackoffDelay_overflow_yields_NaN:
  "calculateBackoffDelay 1024 (Fin 0) (Fin 10000) (Fin r) = NaN \<and>
   calculateBackoffDelay 1024 (Fin 1000) (Fin 10000) (Fin 0.25) = NaN \<and>
   \<not> nonNegIntegerUpTo (Fin 10000) NaN"
proof (intro conjI)
  have z: "jsMul (Fin 0) (mathPow2 1024) = NaN"
    by (simp add: pow2_1024_overflows jsMul_def)
  show "calculateBackoffDelay 1024 (Fin 0) (Fin 10000) (Fin r) = NaN"
    by (simp only: calculateBackoffDelay_def Let_def z NaN_absorbs mathFloor.simps)
next
  have b: "jsMul (Fin 1000) (mathPow2 1024) = PosInf"
    by (simp add: pow2_1024_overflows jsMul_def)
  have jr: "jsMul PosInf (Fin 0.25) = PosInf" by (simp add: jsMul_def)
  have sb: "jsSub (Fin 0.25) (Fin 0.5) = Fin (- 0.25)"
    using overflowBound_gt_1 by (simp add: jsSub_def jsAdd_def overflow_Fin)
  have tw: "jsMul (Fin (- 0.25)) (Fin 2) = Fin (- 0.5)"
    using overflowBound_gt_1 by (simp add: jsMul_def overflow_Fin)
  have jt: "jsMul (Fin (- 0.5)) PosInf = NegInf" by (simp add: jsMul_def)
  have ad: "jsAdd PosInf NegInf = NaN" by (simp add: jsAdd_def)
  show "calculateBackoffDelay 1024 (Fin 1000) (Fin 10000) (Fin 0.25) = NaN"
    by (simp only: calculateBackoffDelay_def Let_def b jr sb tw jt ad NaN_absorbs mathFloor.simps)
next
  show "\<not> nonNegIntegerUpTo (Fin 10000) NaN" by (simp add: nonNegIntegerUpTo_def)
qed

end
